theory Spec2Isabelle
  imports Complex_Main "HOL-Library.Multiset" "HOL-Library.Char_ord" "HOL-Library.List_Lexorder"
begin

section \<open>game-table.tsx: the tabular player view\<close>

subsection \<open>Rows and filter options\<close>

text \<open>
  A row of the table is a \<open>Player\<close>. The component reads the fields \<open>player\<close> (display
  name) and \<open>player_id\<close>; \<open>kills\<close> is the column of the initial sorting state. The record
  is extensible, so every further statistic of a row lives in its \<open>more\<close> part.
\<close>

record Player =
  player_id :: string
  player :: string
  kills :: int

text \<open>An entry of the option list handed to the multi-select box.\<close>

record SelectOption =
  opt_value :: string
  opt_label :: string

text \<open>
  \<^verbatim>\<open>
  const playerFilterOptions = data
    .map(player => ({value: player.player, label: player.player}))
    .concat(
      playerFilter
        .filter(name => !data.some(player => player.player === name))
        .map(name => ({value: name, label: name})))
  \<close>
\<close>

definition playerFilterOptions ::
  "('a Player_scheme) list \<Rightarrow> string list \<Rightarrow> SelectOption list" where
  "playerFilterOptions data playerFilter =
     map (\<lambda>p. \<lparr>opt_value = player p, opt_label = player p\<rparr>) data
     @ map (\<lambda>name. \<lparr>opt_value = name, opt_label = name\<rparr>)
         (filter (\<lambda>name. \<not> list_ex (\<lambda>p. player p = name) data) playerFilter)"

text \<open>
  The properties the component passes to the multi-select box: the option list and the
  selected values. \<open>playerFilter\<close> is component state (\<open>useState\<close>), \<open>data\<close> is a prop, so
  swapping the dataset re-renders with the new \<open>data\<close> and the same \<open>playerFilter\<close>.
\<close>

record SelectBoxProps =
  sb_options :: "SelectOption list"
  sb_value :: "string list"

definition playerSelectBox ::
  "('a Player_scheme) list \<Rightarrow> string list \<Rightarrow> SelectBoxProps" where
  "playerSelectBox data playerFilter =
     \<lparr>sb_options = playerFilterOptions data playerFilter, sb_value = playerFilter\<rparr>"

subsection \<open>SubList: the grouped collapsible list\<close>

text \<open>
  An Immutable \<open>Map\<close> is modelled by the list of its entries in iteration order. The data
  shown is either \<open>playerScore\<close> itself (no \<open>dataMapKey\<close>) or the map stored under
  \<open>dataMapKey\<close> in \<open>playerScore\<close>, with an empty map when that key is missing:
  \<^verbatim>\<open>
  let data = dataMapKey ? playerScore.get(dataMapKey) || new Map() : playerScore;
  \<close>
  The two shapes of \<open>playerScore\<close> are the two constructors; \<open>Keyed m k\<close> carries a
  non-empty \<open>dataMapKey\<close>.
\<close>

datatype ('k, 'v) playerScore =
  Whole "('k \<times> 'v) list"
| Keyed "(string \<times> ('k \<times> 'v) list) list" string

fun SubList_data :: "('k, 'v) playerScore \<Rightarrow> ('k \<times> 'v) list" where
  "SubList_data (Whole m) = m"
| "SubList_data (Keyed m dataMapKey) =
     (case map_of m dataMapKey of Some d \<Rightarrow> d | None \<Rightarrow> [])"

text \<open>
  \<^verbatim>\<open>
  if (sortByKey) data = data.sortBy((v, k) => k)
  else           data = data.sort().reverse()
  \<close>
  Immutable's \<open>sort\<close> and \<open>sortBy\<close> are stable and compare with \<open><\<close> and \<open>>\<close>; keys and
  values are taken from linear orders. \<open>sort_key\<close> is the stable insertion sort of the
  list library.
\<close>

definition SubList_sorted :: "bool \<Rightarrow> ('k::linorder \<times> 'v::linorder) list \<Rightarrow> ('k \<times> 'v) list" where
  "SubList_sorted sortByKey data =
     (if sortByKey then sort_key fst data else rev (sort_key snd data))"

text \<open>The rows rendered in the collapsible body: \<open>data.entrySeq().map(...)\<close>.\<close>

definition SubList_rows ::
  "('k::linorder, 'v::linorder) playerScore \<Rightarrow> bool \<Rightarrow> ('k \<times> 'v) list" where
  "SubList_rows playerScore sortByKey = SubList_sorted sortByKey (SubList_data playerScore)"


subsection \<open>The table's row model and the export control\<close>

text \<open>
  The component has the props \<open>columns\<close>, \<open>data\<close> and \<open>tableId\<close>. The table library
  (TanStack) derives the rows shown from \<open>data\<close>, the column definitions and the table
  state. A column filter is a pair of a column
  id and a filter value; a sorting entry is a pair of a column id and the \<open>desc\<close> flag.
  The filter function and the sort value of a column come with its definition.
\<close>

datatype FilterValue = FText string | FNames "string list"

record 'row ColumnDef =
  col_id :: string
  col_filterFn :: "'row \<Rightarrow> FilterValue \<Rightarrow> bool"
  col_sortValue :: "'row \<Rightarrow> int"

record TableState =
  sorting :: "(string \<times> bool) list"
  columnFilters :: "(string \<times> FilterValue) list"

text \<open>
  The column definitions are the caller's. Two of them serve as an example below: a
  \<open>player\<close> column whose filter keeps the rows with one of the selected names, and a
  \<open>kills\<close> column without a filter that sorts by the number of kills.
\<close>

definition nameSelected :: "'a Player_scheme \<Rightarrow> FilterValue \<Rightarrow> bool" where
  "nameSelected row v = (case v of FNames ns \<Rightarrow> player row \<in> set ns | FText t \<Rightarrow> True)"

definition keepAll :: "'a Player_scheme \<Rightarrow> FilterValue \<Rightarrow> bool" where
  "keepAll row v = True"

definition noSortValue :: "'a Player_scheme \<Rightarrow> int" where
  "noSortValue row = 0"

definition playerColumn :: "Player ColumnDef" where
  "playerColumn = \<lparr>col_id = ''player'', col_filterFn = nameSelected, col_sortValue = noSortValue\<rparr>"

definition killsColumn :: "Player ColumnDef" where
  "killsColumn = \<lparr>col_id = ''kills'', col_filterFn = keepAll, col_sortValue = kills\<rparr>"

text \<open>\<open>useState<SortingState>([{id: 'kills', desc: true}])\<close> and \<open>useState([])\<close>.\<close>

definition initialTableState :: TableState where
  "initialTableState = \<lparr>sorting = [(''kills'', True)], columnFilters = []\<rparr>"

definition getColumn :: "'row ColumnDef list \<Rightarrow> string \<Rightarrow> 'row ColumnDef option" where
  "getColumn cols cid = find (\<lambda>c. col_id c = cid) cols"

text \<open>A row passes when it passes the filter of every filtered column that exists.\<close>

definition passesFilters ::
  "'row ColumnDef list \<Rightarrow> (string \<times> FilterValue) list \<Rightarrow> 'row \<Rightarrow> bool" where
  "passesFilters cols fs row =
     list_all (\<lambda>(cid, v). case getColumn cols cid of
                              None \<Rightarrow> True
                            | Some c \<Rightarrow> col_filterFn c row v) fs"

definition getFilteredRowModel ::
  "'row ColumnDef list \<Rightarrow> (string \<times> FilterValue) list \<Rightarrow> 'row list \<Rightarrow> 'row list" where
  "getFilteredRowModel cols fs rows = filter (passesFilters cols fs) rows"

text \<open>
  Sorting is stable; an earlier sorting entry has priority, so the entries are applied
  from the last to the first. A descending column sorts by the negated value.
\<close>

definition sortByColumn :: "'row ColumnDef list \<Rightarrow> string \<times> bool \<Rightarrow> 'row list \<Rightarrow> 'row list" where
  "sortByColumn cols s rows =
     (case getColumn cols (fst s) of
        None \<Rightarrow> rows
      | Some c \<Rightarrow> if snd s then sort_key (\<lambda>r. - col_sortValue c r) rows
                  else sort_key (col_sortValue c) rows)"

definition getSortedRowModel ::
  "'row ColumnDef list \<Rightarrow> (string \<times> bool) list \<Rightarrow> 'row list \<Rightarrow> 'row list" where
  "getSortedRowModel cols ss rows = foldr (sortByColumn cols) ss rows"

text \<open>\<open>table.getRowModel().rows\<close>: the rows the table body renders.\<close>

definition getRowModel :: "'row ColumnDef list \<Rightarrow> 'row list \<Rightarrow> TableState \<Rightarrow> 'row list" where
  "getRowModel columns data ts =
     getSortedRowModel columns (sorting ts)
       (getFilteredRowModel columns (columnFilters ts) data)"

text \<open>
  The call the export button makes to the download collaborator:
  \<^verbatim>\<open>onClick={() => download(data, `game-table-${tableId}`)}\<close>
  The handler is created in a render that has the props and the table in scope.
\<close>

record 'row DownloadCall =
  dl_rows :: "'row list"
  dl_name :: string

definition download_onClick ::
  "'row ColumnDef list \<Rightarrow> 'row list \<Rightarrow> string \<Rightarrow> TableState \<Rightarrow> 'row DownloadCall" where
  "download_onClick columns data tableId ts =
     \<lparr>dl_rows = data, dl_name = ''game-table-'' @ tableId\<rparr>"

subsection \<open>Scroll to the focused player and highlight the row\<close>

text \<open>
  The part of the environment the focus effect touches: the focused player id of the
  surrounding context, the class list of every element of the document that has an id,
  the elements scrolled into view so far, the pending timeouts (due time in
  milliseconds and the element whose highlight they remove) and the clock.
  \<open>effect_dep\<close> is the dependency value the effect saw when it last ran (\<open>None\<close> before
  the first render). The timeout callback holds the element; the model names the
  element by its id, which a row keeps as long as it is rendered.
\<close>

record focus_env =
  focusedPlayerId :: "string option"
  effect_dep :: "string option option"
  elements :: "string \<rightharpoonup> string list"
  scrolled :: "string list"
  timeouts :: "(nat \<times> string) list"
  now :: nat

definition style :: "string list" where
  "style = [''bg-accent'', ''outline-2'', ''-outline-offset-2'', ''outline-primary'', ''outline'']"

text \<open>\<open>classList.add\<close> appends the tokens that are not yet present; \<open>classList.remove\<close>
  deletes the tokens.\<close>

definition classList_add :: "string list \<Rightarrow> string list \<Rightarrow> string list" where
  "classList_add cls toks = fold (\<lambda>t c. if t \<in> set c then c else c @ [t]) toks cls"

definition classList_remove :: "string list \<Rightarrow> string list \<Rightarrow> string list" where
  "classList_remove cls toks = filter (\<lambda>c. c \<notin> set toks) cls"

text \<open>
  \<^verbatim>\<open>
  useEffect(() => {
    if (focusedPlayerId === null) { return; }
    const element = document.getElementById('row-' + focusedPlayerId);
    if (element) {
      element.scrollIntoView({ behavior: "smooth", block: "center" });
      const style = [...];
      element.classList.add(...style);
      setTimeout(() => { element.classList.remove(...style); }, 2000);
    }
    setFocusedPlayerId(null);
  }, [focusedPlayerId]);
  \<close>
\<close>

definition focus_effect :: "focus_env \<Rightarrow> focus_env" where
  "focus_effect env =
     (case focusedPlayerId env of
        None \<Rightarrow> env
      | Some pid \<Rightarrow>
          (let rid = ''row-'' @ pid;
               env1 = (case elements env rid of
                         None \<Rightarrow> env
                       | Some cls \<Rightarrow>
                           env\<lparr>scrolled := scrolled env @ [rid],
                                elements := (elements env)(rid \<mapsto> classList_add cls style),
                                timeouts := timeouts env @ [(now env + 2000, rid)]\<rparr>)
           in env1\<lparr>focusedPlayerId := None\<rparr>))"

text \<open>
  A render commits and runs the effect when its dependency \<open>focusedPlayerId\<close> differs
  from the value of the previous run. The effect's own \<open>setFocusedPlayerId(null)\<close> causes
  one more render, so a change settles after two commits.
\<close>

definition commit :: "focus_env \<Rightarrow> focus_env" where
  "commit env =
     (if effect_dep env = Some (focusedPlayerId env) then env
      else focus_effect (env\<lparr>effect_dep := Some (focusedPlayerId env)\<rparr>))"

definition settle :: "focus_env \<Rightarrow> focus_env" where
  "settle env = commit (commit env)"

text \<open>A focus request: some other component calls \<open>setFocusedPlayerId(pid)\<close>.\<close>

definition setFocusedPlayerId :: "string option \<Rightarrow> focus_env \<Rightarrow> focus_env" where
  "setFocusedPlayerId v env = env\<lparr>focusedPlayerId := v\<rparr>"

definition request_focus :: "string \<Rightarrow> focus_env \<Rightarrow> focus_env" where
  "request_focus pid env = settle (setFocusedPlayerId (Some pid) env)"

text \<open>The timeout callback, and the passing of \<open>dt\<close> milliseconds: every timeout that is
  due by then runs, in the order of registration.\<close>

definition remove_highlight :: "string \<Rightarrow> (string \<rightharpoonup> string list) \<Rightarrow> (string \<rightharpoonup> string list)" where
  "remove_highlight rid els =
     (case els rid of None \<Rightarrow> els | Some cls \<Rightarrow> els(rid \<mapsto> classList_remove cls style))"

definition elapse :: "nat \<Rightarrow> focus_env \<Rightarrow> focus_env" where
  "elapse dt env =
     (let t = now env + dt;
          due = filter (\<lambda>(d, rid). d \<le> t) (timeouts env)
      in env\<lparr>now := t,
              elements := fold (\<lambda>(d, rid). remove_highlight rid) due (elements env),
              timeouts := filter (\<lambda>(d, rid). \<not> d \<le> t) (timeouts env)\<rparr>)"

definition highlighted :: "focus_env \<Rightarrow> string \<Rightarrow> bool" where
  "highlighted env rid =
     (case elements env rid of None \<Rightarrow> False | Some cls \<Rightarrow> list_all (\<lambda>c. c \<in> set cls) style)"

definition unhighlighted :: "focus_env \<Rightarrow> string \<Rightarrow> bool" where
  "unhighlighted env rid =
     (case elements env rid of None \<Rightarrow> False | Some cls \<Rightarrow> list_all (\<lambda>c. c \<notin> set cls) style)"


section \<open>LiveScore.js: the polling dashboard\<close>

subsection \<open>JavaScript values\<close>

text \<open>
  The values the dashboard handles: what a JSON response parses to (\<open>JArr\<close> a plain array,
  \<open>JObj\<close> a plain object with its properties in order) and the Immutable collections
  \<open>fromJS\<close> makes of them (\<open>IList\<close>, \<open>IMap\<close>). A number is \<open>JNum n\<close> when it is the integer
  \<open>n\<close>, and \<open>JFrac q\<close>, with its value \<open>q\<close>, when it is not an integer.
\<close>

datatype jv =
  JUndefined
| JNull
| JBool bool
| JNum int
| JFrac rat
| JStr string
| JArr "jv list"
| JObj "(string \<times> jv) list"
| IList "jv list"
| IMap "(string \<times> jv) list"

datatype js_error = TypeError | RangeError

text \<open>\<open>fromJS\<close> converts plain arrays and objects deeply and returns every other value,
  an Immutable collection included, as it is.\<close>

fun fromJS :: "jv \<Rightarrow> jv" where
  "fromJS (JArr xs) = IList (map fromJS xs)"
| "fromJS (JObj m) = IMap (map (map_prod id fromJS) m)"
| "fromJS v = v"

text \<open>The values \<open>||\<close> keeps: all but \<open>undefined\<close>, \<open>null\<close>, \<open>false\<close>, \<open>0\<close> and the empty
  string.\<close>

fun truthy :: "jv \<Rightarrow> bool" where
  "truthy JUndefined = False"
| "truthy JNull = False"
| "truthy (JBool b) = b"
| "truthy (JNum n) = (n \<noteq> 0)"
| "truthy (JFrac q) = (q \<noteq> 0)"
| "truthy (JStr s) = (s \<noteq> [])"
| "truthy _ = True"

text \<open>\<open>data.result\<close>: reading a property of \<open>undefined\<close> or \<open>null\<close> throws, a value that
  is not an object with that property gives \<open>undefined\<close>.\<close>

fun js_result :: "jv \<Rightarrow> js_error + jv" where
  "js_result JUndefined = Inl TypeError"
| "js_result JNull = Inl TypeError"
| "js_result (JObj m) = Inr (case map_of m ''result'' of Some v \<Rightarrow> v | None \<Rightarrow> JUndefined)"
| "js_result _ = Inr JUndefined"

text \<open>
  \<open>v.get(k, d)\<close> for a key \<open>k\<close> that is not the decimal form of an index (every key of
  this file is such a word): a \<open>Map\<close> looks the key up, a \<open>List\<close> has no such index, and
  any other value has no method \<open>get\<close>, so the call throws.
\<close>

fun imm_get :: "jv \<Rightarrow> string \<Rightarrow> jv \<Rightarrow> js_error + jv" where
  "imm_get (IMap m) k d = Inr (case map_of m k of Some v \<Rightarrow> v | None \<Rightarrow> d)"
| "imm_get (IList xs) k d = Inr d"
| "imm_get _ k d = Inl TypeError"

text \<open>\<open>v?.get(k)\<close> and \<open>v?.get(0)\<close>: \<open>undefined\<close> for \<open>undefined\<close> and \<open>null\<close>. The keys of a
  \<open>Map\<close> made from JSON are strings, none equals the number \<open>0\<close>.\<close>

fun opt_get :: "jv \<Rightarrow> string \<Rightarrow> js_error + jv" where
  "opt_get JUndefined k = Inr JUndefined"
| "opt_get JNull k = Inr JUndefined"
| "opt_get v k = imm_get v k JUndefined"

fun opt_get0 :: "jv \<Rightarrow> js_error + jv" where
  "opt_get0 JUndefined = Inr JUndefined"
| "opt_get0 JNull = Inr JUndefined"
| "opt_get0 (IList xs) = Inr (case xs of [] \<Rightarrow> JUndefined | x # _ \<Rightarrow> x)"
| "opt_get0 (IMap m) = Inr JUndefined"
| "opt_get0 _ = Inl TypeError"

text \<open>
  \<open>const [a, b] = v\<close> takes the first two items \<open>v\<close> iterates over, \<open>undefined\<close> where
  there is none: the elements of an array or a \<open>List\<close>, the entries \<open>[key, value]\<close> of
  a \<open>Map\<close>, the characters of a string. Other values are not iterable.
\<close>

definition first_two :: "jv list \<Rightarrow> jv \<times> jv" where
  "first_two xs =
     (case xs of [] \<Rightarrow> (JUndefined, JUndefined)
      | a # r \<Rightarrow> (a, case r of [] \<Rightarrow> JUndefined | b # _ \<Rightarrow> b))"

fun destructure2 :: "jv \<Rightarrow> js_error + (jv \<times> jv)" where
  "destructure2 (JArr xs) = Inr (first_two xs)"
| "destructure2 (IList xs) = Inr (first_two xs)"
| "destructure2 (IMap m) = Inr (first_two (map (\<lambda>(k, v). JArr [JStr k, v]) m))"
| "destructure2 (JStr s) = Inr (first_two (map (\<lambda>c. JStr [c]) s))"
| "destructure2 _ = Inl TypeError"

text \<open>
  \<open>a === b\<close>: primitive values are compared by value, objects by identity. Two
  collections found at different places of a converted response are different objects,
  except that every empty \<open>List\<close> is the same object, and every empty \<open>Map\<close>.
\<close>

fun strict_eq :: "jv \<Rightarrow> jv \<Rightarrow> bool" where
  "strict_eq JUndefined JUndefined = True"
| "strict_eq JNull JNull = True"
| "strict_eq (JBool a) (JBool b) = (a = b)"
| "strict_eq (JNum a) (JNum b) = (a = b)"
| "strict_eq (JFrac a) (JFrac b) = (a = b)"
| "strict_eq (JStr a) (JStr b) = (a = b)"
| "strict_eq (IList a) (IList b) = (a = [] \<and> b = [])"
| "strict_eq (IMap a) (IMap b) = (a = [] \<and> b = [])"
| "strict_eq _ _ = False"

text \<open>
  The decimal digits of a natural number, and the string of an integer up to the
  largest safe one, \<open>2^53 - 1\<close>, which a template literal prints in full.
\<close>

definition digit :: "nat \<Rightarrow> char" where
  "digit d = ''0123456789'' ! d"

fun decimal :: "nat \<Rightarrow> string" where
  "decimal n = (if n < 10 then [digit n] else decimal (n div 10) @ [digit (n mod 10)])"

declare decimal.simps [simp del]

definition number_string :: "int \<Rightarrow> string" where
  "number_string n = (if 0 \<le> n then decimal (nat n) else CHR ''-'' # decimal (nat (- n)))"

definition safe_integer :: "int \<Rightarrow> bool" where
  "safe_integer n = (\<bar>n\<bar> \<le> 9007199254740991)"

text \<open>
  \<open>`${v}`\<close>: the string a template literal inserts. An array joins its elements with
  commas, \<open>undefined\<close> and \<open>null\<close> elements as empty strings. How the platform prints
  a number that is not a safe integer (with a fraction, rounded, or with an exponent),
  and how the library prints an Immutable collection, is not decided here: \<open>other\<close>
  stands for both.
\<close>

fun to_string :: "(jv \<Rightarrow> string) \<Rightarrow> jv \<Rightarrow> string"
  and join_elems :: "(jv \<Rightarrow> string) \<Rightarrow> jv list \<Rightarrow> string"
  and elem_string :: "(jv \<Rightarrow> string) \<Rightarrow> jv \<Rightarrow> string" where
  "to_string other JUndefined = ''undefined''"
| "to_string other JNull = ''null''"
| "to_string other (JBool b) = (if b then ''true'' else ''false'')"
| "to_string other (JNum n) = (if safe_integer n then number_string n else other (JNum n))"
| "to_string other (JFrac q) = other (JFrac q)"
| "to_string other (JStr s) = s"
| "to_string other (JArr xs) = join_elems other xs"
| "to_string other (JObj m) = ''[object Object]''"
| "to_string other (IList xs) = other (IList xs)"
| "to_string other (IMap m) = other (IMap m)"
| "join_elems other [] = []"
| "join_elems other [x] = elem_string other x"
| "join_elems other (x # y # r) = elem_string other x @ '','' @ join_elems other (y # r)"
| "elem_string other JUndefined = []"
| "elem_string other JNull = []"
| "elem_string other v = to_string other v"

subsection \<open>The next-map message\<close>

text \<open>
  \<^verbatim>\<open>
  const [map, nbVotes] = serverState
    .get("vote_status")?.get("winning_maps")?.get(0) || ["", 0];
  const totalVotes = serverState.get("vote_status")?.get("total_votes");
  const nextMap = serverState.get("next_map")?.get("map")?.get("pretty_name");
  if (map === nextMap) {
    return `Nextmap ${nextMap} with ${nbVotes} out of ${totalVotes} votes`;
  }
  return `Nextmap: ${nextMap}`;
  \<close>
  Each of the three constants is a function of the server state that may throw.
\<close>

definition bind_js :: "js_error + 'a \<Rightarrow> ('a \<Rightarrow> js_error + 'b) \<Rightarrow> js_error + 'b" where
  "bind_js r f = (case r of Inl e \<Rightarrow> Inl e | Inr v \<Rightarrow> f v)"

definition top_vote :: "jv \<Rightarrow> js_error + (jv \<times> jv)" where
  "top_vote serverState =
     bind_js (imm_get serverState ''vote_status'' JUndefined) (\<lambda>vs.
     bind_js (opt_get vs ''winning_maps'') (\<lambda>wm.
     bind_js (opt_get0 wm) (\<lambda>w.
       destructure2 (if truthy w then w else JArr [JStr [], JNum 0]))))"

definition totalVotes :: "jv \<Rightarrow> js_error + jv" where
  "totalVotes serverState =
     bind_js (imm_get serverState ''vote_status'' JUndefined) (\<lambda>vs.
       opt_get vs ''total_votes'')"

definition nextMap :: "jv \<Rightarrow> js_error + jv" where
  "nextMap serverState =
     bind_js (imm_get serverState ''next_map'' JUndefined) (\<lambda>nm.
     bind_js (opt_get nm ''map'') (\<lambda>m.
       opt_get m ''pretty_name''))"

definition nextMapString :: "(jv \<Rightarrow> string) \<Rightarrow> jv \<Rightarrow> js_error + string" where
  "nextMapString other serverState =
     bind_js (top_vote serverState) (\<lambda>(map, nbVotes).
     bind_js (totalVotes serverState) (\<lambda>tot.
     bind_js (nextMap serverState) (\<lambda>nm.
       if strict_eq map nm
       then Inr (''Nextmap '' @ to_string other nm @ '' with '' @ to_string other nbVotes
                 @ '' out of '' @ to_string other tot @ '' votes'')
       else Inr (''Nextmap: '' @ to_string other nm))))"

subsection \<open>State of the dashboard\<close>

text \<open>
  The five state variables of \<open>LiveScore\<close>, and the environment a poll tick acts on: the
  interval timer set by the second effect (the value of \<open>refreshIntervalSec\<close> it was
  created with, and the time it was set or last fired), the clock in milliseconds
  (\<open>Date.now()\<close>), the number of requests of either kind that have not settled yet, how
  often the error handler has been called, how often \<open>setRefreshIntervalSec\<close> has been
  called (a state variable that is not set keeps the very same value, which matters when
  React compares the dependencies of an effect), and the calls of \<open>setIsLoading\<close> and of
  \<open>get\<close> so far, in the order they were made.
\<close>

record interval_timer =
  tm_sec :: jv
  tm_last :: nat

datatype call = LoadingSet bool | StatsRequested | InfoRequested

record live =
  stats :: jv
  serverState :: jv
  isLoading :: bool
  isPaused :: bool
  refreshIntervalSec :: jv
  interval :: "interval_timer option"
  clock :: nat
  pendingStats :: nat
  pendingInfo :: nat
  errorsHandled :: nat
  refreshSets :: nat
  calls :: "call list"

text \<open>The initial values of the \<open>useState\<close> calls, before any effect has run.\<close>

definition initial :: live where
  "initial = \<lparr>stats = IList [], serverState = IMap [], isLoading = True, isPaused = False,
      refreshIntervalSec = JNum 10, interval = None, clock = 0,
      pendingStats = 0, pendingInfo = 0, errorsHandled = 0, refreshSets = 0, calls = []\<rparr>"

text \<open>
  Modelled from the spec: \<open>handle_http_errors\<close> of \<open>utils/fetchUtils\<close> is not part of the
  sources at hand. The spec has failures of either fetch caught and reported to a
  generic error-handling collaborator, out of band. It is given the error only, none of
  the setters of the component, so it leaves the state variables alone; the model counts
  the call.
\<close>

definition handle_http_errors :: "live \<Rightarrow> live" where
  "handle_http_errors st = st\<lparr>errorsHandled := Suc (errorsHandled st)\<rparr>"

subsection \<open>Rendering\<close>

text \<open>
  The promise callbacks run outside React's event handlers, so each of their state
  updates renders the dashboard at once, inside the setter. When that render throws,
  React unmounts the dashboard, the cleanup of the interval effect clears the timer, and
  the exception leaves the setter: the rest of the promise chain is skipped and its
  \<open>catch\<close> runs.

  What the render of \<open>LiveScore\<close> reads of \<open>stats\<close>:
  \<^verbatim>\<open>
  const scores = stats.get("stats", new iList());
  const lastRefresh = stats.get("snapshot_timestamp")
    ? moment.unix(stats.get("snapshot_timestamp")).format() : "N/A";
  \<close>
  The first read throws for a value without \<open>get\<close>; formatting a timestamp does not
  throw. The child component \<open>Scores\<close> and the components of the user interface library
  are not among the sources; their render of the properties they are given is taken to
  return.
\<close>

datatype render = Renders | Throws js_error | NotFollowed

definition render_stats :: "jv \<Rightarrow> render" where
  "render_stats v =
     (case imm_get v ''stats'' (IList []) of Inl e \<Rightarrow> Throws e | Inr scores \<Rightarrow> Renders)"

text \<open>
  What it reads of \<open>serverState\<close>:
  \<^verbatim>\<open>
  document.title = serverState.get("name", new Map()).get("name", "HLL Stats");
  let started = serverState.get("current_map", new Map()).get("start");
  started = started
    ? new Date(Date.now() - new Date(started * 1000)).toISOString().substr(11, 8)
    : "N/A";
  \<close>
\<close>

definition title :: "jv \<Rightarrow> js_error + jv" where
  "title v =
     bind_js (imm_get v ''name'' (IMap [])) (\<lambda>n. imm_get n ''name'' (JStr ''HLL Stats''))"

definition started :: "jv \<Rightarrow> js_error + jv" where
  "started v =
     bind_js (imm_get v ''current_map'' (IMap [])) (\<lambda>cm. imm_get cm ''start'' JUndefined)"

text \<open>
  A \<open>Date\<close> holds a time of at most 8,640,000,000,000,000 ms before or after the epoch
  and is invalid otherwise; \<open>toISOString\<close> of an invalid date throws a RangeError. The
  elapsed time is the string of the date \<open>Date.now() - t\<close>, where \<open>t\<close> is the start time in
  milliseconds. It is followed for a start that is an integer (or \<open>true\<close>, which
  counts as 1); what a start of another kind is converted to is left to the platform.
\<close>

definition valid_time :: "int \<Rightarrow> bool" where
  "valid_time t = (\<bar>t\<bar> \<le> 8640000000000000)"

definition toISOString :: "nat \<Rightarrow> int \<Rightarrow> render" where
  "toISOString dateNow t =
     (if valid_time t \<and> valid_time (int dateNow - t) then Renders else Throws RangeError)"

definition elapsed :: "nat \<Rightarrow> jv \<Rightarrow> render" where
  "elapsed dateNow s =
     (if \<not> truthy s then Renders
      else case s of
             JNum n \<Rightarrow> toISOString dateNow (n * 1000)
           | JBool b \<Rightarrow> toISOString dateNow 1000
           | _ \<Rightarrow> NotFollowed)"

text \<open>
  \<open>LiveHeader\<close> is a child of \<open>LiveScore\<close> in the public build only (the build-time flag
  \<open>REACT_APP_PUBLIC_BUILD\<close>). Besides the next-map message it reads
  \<^verbatim>\<open>
  serverState.get("current_map")?.get("map")?.get("image_name", "unknown.webp")
  serverState.get("current_map", new Map()).get("map", new Map()).get("pretty_name")
  \<close>
  Where one of its reads would throw, the render depends on the build and is not
  followed.
\<close>

fun opt_get_or :: "jv \<Rightarrow> string \<Rightarrow> jv \<Rightarrow> js_error + jv" where
  "opt_get_or JUndefined k d = Inr JUndefined"
| "opt_get_or JNull k d = Inr JUndefined"
| "opt_get_or v k d = imm_get v k d"

definition header_image :: "jv \<Rightarrow> js_error + jv" where
  "header_image v =
     bind_js (imm_get v ''current_map'' JUndefined) (\<lambda>cm.
     bind_js (opt_get cm ''map'') (\<lambda>m.
       opt_get_or m ''image_name'' (JStr ''unknown.webp'')))"

definition header_title :: "jv \<Rightarrow> js_error + jv" where
  "header_title v =
     bind_js (imm_get v ''current_map'' (IMap [])) (\<lambda>cm.
     bind_js (imm_get cm ''map'' (IMap [])) (\<lambda>m.
       imm_get m ''pretty_name'' JUndefined))"

definition returns :: "js_error + 'a \<Rightarrow> bool" where
  "returns r = (case r of Inl e \<Rightarrow> False | Inr v \<Rightarrow> True)"

definition header_reads :: "jv \<Rightarrow> bool" where
  "header_reads v =
     (returns (top_vote v) \<and> returns (totalVotes v) \<and> returns (nextMap v)
      \<and> returns (header_image v) \<and> returns (header_title v))"

definition render_serverState :: "nat \<Rightarrow> jv \<Rightarrow> render" where
  "render_serverState dateNow v =
     (case title v of
        Inl e \<Rightarrow> Throws e
      | Inr t \<Rightarrow>
          (case started v of
             Inl e \<Rightarrow> Throws e
           | Inr s \<Rightarrow>
               (case elapsed dateNow s of
                  Throws e \<Rightarrow> Throws e
                | NotFollowed \<Rightarrow> NotFollowed
                | Renders \<Rightarrow> if header_reads v then Renders else NotFollowed)))"

text \<open>
  What has become of the dashboard after a promise chain has run: it is still mounted,
  in a new state; or a render has thrown and it is unmounted, the state being what the
  chain left behind; or its render was not followed.
\<close>

datatype fate = Mounted live | Unmounted live | Unknown

definition unmount :: "live \<Rightarrow> live" where
  "unmount st = st\<lparr>interval := None\<rparr>"

subsection \<open>getData and the two promise chains\<close>

text \<open>
  \<^verbatim>\<open>
  const getData = () => {
    setIsLoading(true);
    get(endpoint)...;
    get("get_public_info")...;
  };
  \<close>
  The three statements of \<open>getData\<close>, in the order of the source.
\<close>

definition setIsLoading :: "bool \<Rightarrow> live \<Rightarrow> live" where
  "setIsLoading b st = st\<lparr>isLoading := b, calls := calls st @ [LoadingSet b]\<rparr>"

definition issue_stats :: "live \<Rightarrow> live" where
  "issue_stats st =
     st\<lparr>pendingStats := Suc (pendingStats st), calls := calls st @ [StatsRequested]\<rparr>"

definition issue_info :: "live \<Rightarrow> live" where
  "issue_info st =
     st\<lparr>pendingInfo := Suc (pendingInfo st), calls := calls st @ [InfoRequested]\<rparr>"

definition getData :: "live \<Rightarrow> live" where
  "getData st = issue_info (issue_stats (setIsLoading True st))"

text \<open>
  How a request settles. \<open>Rejected\<close>: \<open>get\<close> or \<open>showResponse\<close> rejected (a network or HTTP
  failure), the chain goes to its \<open>catch\<close> at once. \<open>Resolved data\<close>: \<open>showResponse\<close> gave
  the parsed response \<open>data\<close> to the next \<open>then\<close>.
\<close>

datatype outcome = Rejected | Resolved jv

text \<open>
  \<^verbatim>\<open>
  .then((data) => {
    const map_ = fromJS(data.result || new iList());
    setStats(map_);
    setRefreshIntervalSec(map_.get("refresh_interval_sec", 10));
  })
  .catch(handle_http_errors);
  \<close>
  An exception thrown in the handler is caught by the \<open>catch\<close> as well; what the
  handler has set before stays set.
\<close>

definition setRefreshIntervalSec :: "jv \<Rightarrow> live \<Rightarrow> live" where
  "setRefreshIntervalSec v st =
     st\<lparr>refreshIntervalSec := v, refreshSets := Suc (refreshSets st)\<rparr>"

definition stats_then :: "jv \<Rightarrow> live \<Rightarrow> fate" where
  "stats_then data st =
     (case js_result data of
        Inl e \<Rightarrow> Mounted (handle_http_errors st)
      | Inr r \<Rightarrow>
          (let map' = fromJS (if truthy r then r else IList []);
               st1 = st\<lparr>stats := map'\<rparr>
           in case render_stats map' of
                Throws e \<Rightarrow> Unmounted (handle_http_errors (unmount st1))
              | NotFollowed \<Rightarrow> Unknown
              | Renders \<Rightarrow>
                  (case imm_get map' ''refresh_interval_sec'' (JNum 10) of
                     Inl e \<Rightarrow> Mounted (handle_http_errors st1)
                   | Inr v \<Rightarrow> Mounted (setRefreshIntervalSec v st1))))"

definition stats_settled :: "outcome \<Rightarrow> live \<Rightarrow> fate" where
  "stats_settled oc st =
     (let st0 = st\<lparr>pendingStats := pendingStats st - 1\<rparr>
      in case oc of Rejected \<Rightarrow> Mounted (handle_http_errors st0)
                  | Resolved data \<Rightarrow> stats_then data st0)"

text \<open>
  \<^verbatim>\<open>
  .then((data) => setServerState(fromJS(data.result)))
  .then(() => setIsLoading(false))
  .catch(handle_http_errors);
  \<close>
\<close>

definition info_then :: "jv \<Rightarrow> live \<Rightarrow> fate" where
  "info_then data st =
     (case js_result data of
        Inl e \<Rightarrow> Mounted (handle_http_errors st)
      | Inr r \<Rightarrow>
          (let st1 = st\<lparr>serverState := fromJS r\<rparr>
           in case render_serverState (clock st) (fromJS r) of
                Throws e \<Rightarrow> Unmounted (handle_http_errors (unmount st1))
              | NotFollowed \<Rightarrow> Unknown
              | Renders \<Rightarrow> Mounted (setIsLoading False st1)))"

definition info_settled :: "outcome \<Rightarrow> live \<Rightarrow> fate" where
  "info_settled oc st =
     (let st0 = st\<lparr>pendingInfo := pendingInfo st - 1\<rparr>
      in case oc of Rejected \<Rightarrow> Mounted (handle_http_errors st0)
                  | Resolved data \<Rightarrow> info_then data st0)"

subsection \<open>The interval effect\<close>

text \<open>
  \<^verbatim>\<open>
  React.useEffect(() => {
    if (!isPaused) {
      const interval = setInterval(getData, refreshIntervalSec * 1000);
      return () => clearInterval(interval);
    }
  }, [isPaused, refreshIntervalSec]);
  \<close>
  Running the effect replaces the timer of the previous run, which its cleanup clears.
  After an update the effect runs when one of its two dependencies has changed: when
  \<open>isPaused\<close> differs, or when \<open>refreshIntervalSec\<close> has been set to a value that is not
  the same as the one before.
\<close>

definition interval_effect :: "live \<Rightarrow> live" where
  "interval_effect st =
     st\<lparr>interval := (if \<not> isPaused st
                       then Some \<lparr>tm_sec = refreshIntervalSec st, tm_last = clock st\<rparr>
                       else None)\<rparr>"

definition deps_changed :: "live \<Rightarrow> live \<Rightarrow> bool" where
  "deps_changed old new =
     (isPaused old \<noteq> isPaused new
      \<or> (refreshSets old \<noteq> refreshSets new
         \<and> \<not> strict_eq (refreshIntervalSec old) (refreshIntervalSec new)))"

definition rerender :: "live \<Rightarrow> live \<Rightarrow> live" where
  "rerender old new = (if deps_changed old new then interval_effect new else new)"

text \<open>Mounting runs both effects: \<open>React.useEffect(getData, [])\<close> and the interval effect.\<close>

definition mount :: live where
  "mount = interval_effect (getData initial)"

text \<open>
  The time a timer fires next. \<open>setInterval\<close> is given \<open>refreshIntervalSec * 1000\<close>
  milliseconds, a negative delay counts as none. For a value that is not an integer the
  delay is what the runtime converts it to, and the model does not say when such a
  timer fires.
\<close>

definition next_fire :: "interval_timer \<Rightarrow> nat option" where
  "next_fire tm = (case tm_sec tm of JNum n \<Rightarrow> Some (tm_last tm + nat (n * 1000)) | _ \<Rightarrow> None)"

definition can_fire :: "live \<Rightarrow> bool" where
  "can_fire st =
     (case interval st of
        None \<Rightarrow> False
      | Some tm \<Rightarrow> (case next_fire tm of None \<Rightarrow> True | Some t \<Rightarrow> t \<le> clock st))"

text \<open>
  The timer in place belongs to the current state: there is none while paused, and
  otherwise it was set with the current value of \<open>refreshIntervalSec\<close>.
\<close>

definition timer_current :: "live \<Rightarrow> bool" where
  "timer_current st =
     (case interval st of
        None \<Rightarrow> isPaused st
      | Some tm \<Rightarrow> \<not> isPaused st \<and> tm_sec tm = refreshIntervalSec st)"

subsection \<open>Events\<close>

text \<open>
  What can happen to a mounted dashboard: time passes, the interval timer calls
  \<open>getData\<close>, the user clicks the pause link (\<open>setPaused(!isPaused)\<close>), a request
  settles. An event that cannot happen in a state (the timer is not due, no request is
  pending) has no successor. Nor has the settling of a request after which the dashboard
  is no longer mounted, or not known to be: \<open>step\<close> and \<open>run\<close> follow a mounted
  dashboard, and what a chain leaves behind when a render throws is told by
  \<open>stats_settled\<close> and \<open>info_settled\<close>. A mounted dashboard has rendered its snapshots
  before, so the updates that leave both as they are render again.
\<close>

datatype event =
  Elapse nat
| TimerFires
| TogglePause
| StatsSettled outcome
| InfoSettled outcome

definition timer_fired :: "live \<Rightarrow> live" where
  "timer_fired st =
     getData (st\<lparr>interval := map_option (\<lambda>tm. tm\<lparr>tm_last := clock st\<rparr>) (interval st)\<rparr>)"

definition still_mounted :: "live \<Rightarrow> fate \<Rightarrow> live option" where
  "still_mounted old f =
     (case f of Mounted new \<Rightarrow> Some (rerender old new) | Unmounted new \<Rightarrow> None | Unknown \<Rightarrow> None)"

fun step :: "event \<Rightarrow> live \<Rightarrow> live option" where
  "step (Elapse dt) st = Some (st\<lparr>clock := clock st + dt\<rparr>)"
| "step TimerFires st =
     (if can_fire st then Some (rerender st (timer_fired st)) else None)"
| "step TogglePause st = Some (rerender st (st\<lparr>isPaused := \<not> isPaused st\<rparr>))"
| "step (StatsSettled oc) st =
     (if 0 < pendingStats st then still_mounted st (stats_settled oc st) else None)"
| "step (InfoSettled oc) st =
     (if 0 < pendingInfo st then still_mounted st (info_settled oc st) else None)"

fun run :: "event list \<Rightarrow> live \<Rightarrow> live option" where
  "run [] st = Some st"
| "run (e # es) st = (case step e st of None \<Rightarrow> None | Some st' \<Rightarrow> run es st')"


section \<open>Properties of the tabular player view\<close>

lemma option_values_split:
  "set (map opt_value (playerFilterOptions ds pf))
     = player ` set ds \<union> {n \<in> set pf. n \<notin> player ` set ds}"
  by (auto simp: playerFilterOptions_def list_ex_iff)

text \<open>
  Claim C4. For every current dataset and every list of already selected player names,
  the values of the player-name filter options are exactly the names present in the
  dataset together with the selected names absent from it. Hence, after swapping in any
  dataset, every selected name is still among the options and still selected.
\<close>

theorem C4_sticky_filter_options:
  "set (map opt_value (sb_options (playerSelectBox ds pf)))
     = player ` set ds \<union> {n \<in> set pf. n \<notin> player ` set ds}
   \<and> (\<forall>n \<in> set pf.
        n \<in> set (map opt_value (sb_options (playerSelectBox ds pf)))
        \<and> n \<in> set (sb_value (playerSelectBox ds pf)))"
  using option_values_split [of ds pf]
  by (auto simp: playerSelectBox_def)

theorem C4_sticky_filter_options_witness:
  "set (map opt_value (sb_options (playerSelectBox
        [\<lparr>player_id = ''2'', player = ''bob'', kills = 3\<rparr>] [''alice''])))
     = {''bob'', ''alice''}
   \<and> ''alice'' \<in> set (sb_value (playerSelectBox
        [\<lparr>player_id = ''2'', player = ''bob'', kills = 3\<rparr>] [''alice'']))"
  using C4_sticky_filter_options
    [of "[\<lparr>player_id = ''2'', player = ''bob'', kills = 3\<rparr>]" "[''alice'']"]
  by auto

subsection \<open>Focus and highlight\<close>

lemma set_classList_add: "set (classList_add cls toks) = set cls \<union> set toks"
  unfolding classList_add_def
  by (induction toks arbitrary: cls) auto

lemma set_classList_remove: "set (classList_remove cls toks) = set cls - set toks"
  by (auto simp: classList_remove_def)

lemma classList_remove_idem:
  "classList_remove (classList_remove cls toks) toks = classList_remove cls toks"
  by (simp add: classList_remove_def)

lemma remove_highlight_apply:
  "remove_highlight r els rid =
     (case els rid of
        None \<Rightarrow> None
      | Some cls \<Rightarrow> if rid = r then Some (classList_remove cls style) else Some cls)"
  by (simp add: remove_highlight_def split: option.splits)

lemma fold_remove_highlight:
  "fold (\<lambda>(d, r). remove_highlight r) ts els rid =
     (case els rid of
        None \<Rightarrow> None
      | Some cls \<Rightarrow> if rid \<in> snd ` set ts then Some (classList_remove cls style) else Some cls)"
proof (induction ts arbitrary: els)
  case Nil
  then show ?case by (simp split: option.splits)
next
  case (Cons t ts)
  obtain d r where t: "t = (d, r)" by (cases t)
  have "fold (\<lambda>(d, r). remove_highlight r) (t # ts) els rid
          = fold (\<lambda>(d, r). remove_highlight r) ts (remove_highlight r els) rid"
    by (simp add: t)
  also have "\<dots> = (case remove_highlight r els rid of
        None \<Rightarrow> None
      | Some cls \<Rightarrow> if rid \<in> snd ` set ts then Some (classList_remove cls style) else Some cls)"
    by (rule Cons.IH)
  also have "\<dots> = (case els rid of
        None \<Rightarrow> None
      | Some cls \<Rightarrow> if rid \<in> snd ` set (t # ts) then Some (classList_remove cls style) else Some cls)"
    by (simp add: remove_highlight_apply t classList_remove_idem split: option.splits)
  finally show ?case .
qed

lemma request_focus_fields:
  assumes "focusedPlayerId env = None" "effect_dep env = Some None"
  shows "focusedPlayerId (request_focus pid env) = None"
    and "effect_dep (request_focus pid env) = Some None"
    and "now (request_focus pid env) = now env"
    and "elements env (''row-'' @ pid) = Some cls \<Longrightarrow>
           scrolled (request_focus pid env) = scrolled env @ [''row-'' @ pid]"
    and "elements env (''row-'' @ pid) = Some cls \<Longrightarrow>
           elements (request_focus pid env)
             = (elements env)(''row-'' @ pid \<mapsto> classList_add cls style)"
    and "elements env (''row-'' @ pid) = Some cls \<Longrightarrow>
           timeouts (request_focus pid env) = timeouts env @ [(now env + 2000, ''row-'' @ pid)]"
    and "elements env (''row-'' @ pid) = None \<Longrightarrow>
           scrolled (request_focus pid env) = scrolled env
           \<and> elements (request_focus pid env) = elements env
           \<and> timeouts (request_focus pid env) = timeouts env"
  using assms
  by (simp_all add: request_focus_def settle_def commit_def setFocusedPlayerId_def
      focus_effect_def Let_def split: option.splits)

lemma elapse_fields:
  "focusedPlayerId (elapse dt env) = focusedPlayerId env"
  "effect_dep (elapse dt env) = effect_dep env"
  "scrolled (elapse dt env) = scrolled env"
  "now (elapse dt env) = now env + dt"
  "elements (elapse dt env) rid =
     (case elements env rid of
        None \<Rightarrow> None
      | Some cls \<Rightarrow> if \<exists>d. (d, rid) \<in> set (timeouts env) \<and> d \<le> now env + dt
                    then Some (classList_remove cls style) else Some cls)"
  by (auto simp add: elapse_def Let_def fold_remove_highlight image_iff split: option.splits)


lemma elapse_not_due:
  assumes "\<forall>d. (d, rid) \<in> set (timeouts env) \<longrightarrow> now env + dt < d"
  shows "elements (elapse dt env) rid = elements env rid"
proof (cases "elements env rid")
  case None
  then show ?thesis by (simp add: elapse_fields(5))
next
  case (Some cls)
  have "\<not> (\<exists>d. (d, rid) \<in> set (timeouts env) \<and> d \<le> now env + dt)"
    using assms by (meson not_le)
  then show ?thesis by (simp only: elapse_fields(5) Some option.case if_False)
qed

lemma highlighted_after_add:
  "elements env rid = Some cls \<Longrightarrow> set style \<subseteq> set cls \<Longrightarrow> highlighted env rid"
  by (auto simp: highlighted_def list_all_iff)

text \<open>
  Claim C7. A focus request on a settled view whose document has the row of the player:
  the external value goes from null to the id and back to null, the row is scrolled into
  view, it carries the whole highlight class set, and a timeout due 2000 ms later is
  registered for it. When 2000 ms have passed the row carries none of the classes; before
  that, unless an older timeout for the same row comes due, it still carries all of them.
  A second request for the same id, after any time, scrolls and highlights again.
\<close>

theorem C7_focus_highlight_one_shot:
  assumes idle: "focusedPlayerId env = None" "effect_dep env = Some None"
    and row: "elements env (''row-'' @ pid) = Some cls"
  shows "focusedPlayerId (setFocusedPlayerId (Some pid) env) = Some pid
     \<and> focusedPlayerId (request_focus pid env) = None
     \<and> effect_dep (request_focus pid env) = Some None
     \<and> scrolled (request_focus pid env) = scrolled env @ [''row-'' @ pid]
     \<and> highlighted (request_focus pid env) (''row-'' @ pid)
     \<and> timeouts (request_focus pid env) = timeouts env @ [(now env + 2000, ''row-'' @ pid)]
     \<and> unhighlighted (elapse 2000 (request_focus pid env)) (''row-'' @ pid)
     \<and> (\<forall>dt<2000. (\<forall>d. (d, ''row-'' @ pid) \<in> set (timeouts env) \<longrightarrow> now env + dt < d)
            \<longrightarrow> highlighted (elapse dt (request_focus pid env)) (''row-'' @ pid))
     \<and> (\<forall>dt. focusedPlayerId (request_focus pid (elapse dt (request_focus pid env))) = None
            \<and> scrolled (request_focus pid (elapse dt (request_focus pid env)))
                 = scrolled env @ [''row-'' @ pid, ''row-'' @ pid]
            \<and> highlighted (request_focus pid (elapse dt (request_focus pid env))) (''row-'' @ pid))"
proof -
  let ?rid = "''row-'' @ pid"
  let ?e = "request_focus pid env"
  note f = request_focus_fields [OF idle, of pid]
  have els: "elements ?e = (elements env)(?rid \<mapsto> classList_add cls style)"
    using f(5) [OF row] .
  have tms: "timeouts ?e = timeouts env @ [(now env + 2000, ?rid)]"
    using f(6) [OF row] .
  have c1: "focusedPlayerId (setFocusedPlayerId (Some pid) env) = Some pid"
    by (simp add: setFocusedPlayerId_def)
  have c5: "highlighted ?e ?rid"
    by (rule highlighted_after_add [where cls = "classList_add cls style"])
       (simp_all add: els set_classList_add)
  have c7: "unhighlighted (elapse 2000 ?e) ?rid"
    by (auto simp: unhighlighted_def elapse_fields els tms f(3) list_all_iff
        set_classList_remove)
  have c8: "highlighted (elapse dt ?e) ?rid"
    if "dt < 2000" "\<forall>d. (d, ?rid) \<in> set (timeouts env) \<longrightarrow> now env + dt < d" for dt
  proof -
    have "\<forall>d. (d, ?rid) \<in> set (timeouts ?e) \<longrightarrow> now ?e + dt < d"
      using that by (auto simp: tms f(3))
    then have "elements (elapse dt ?e) ?rid = elements ?e ?rid"
      by (rule elapse_not_due)
    then have "elements (elapse dt ?e) ?rid = Some (classList_add cls style)"
      by (simp add: els)
    then show ?thesis
      by (rule highlighted_after_add) (simp add: set_classList_add)
  qed
  have c9: "focusedPlayerId (request_focus pid (elapse dt ?e)) = None
            \<and> scrolled (request_focus pid (elapse dt ?e)) = scrolled env @ [?rid, ?rid]
            \<and> highlighted (request_focus pid (elapse dt ?e)) ?rid" for dt
  proof -
    let ?m = "elapse dt ?e"
    have idle': "focusedPlayerId ?m = None" "effect_dep ?m = Some None"
      by (simp_all add: elapse_fields f(1,2))
    obtain cls' where row': "elements ?m ?rid = Some cls'"
      by (cases "elements ?m ?rid") (simp_all add: elapse_fields(5) els split: if_splits)
    note g = request_focus_fields [OF idle', of pid]
    have "scrolled (request_focus pid ?m) = scrolled env @ [?rid, ?rid]"
      using g(4) [OF row'] f(4) [OF row] by (simp add: elapse_fields)
    moreover have "highlighted (request_focus pid ?m) ?rid"
      by (rule highlighted_after_add [where cls = "classList_add cls' style"])
         (simp_all add: g(5) [OF row'] set_classList_add)
    ultimately show ?thesis using g(1) by simp
  qed
  show ?thesis
    using c1 f(1) f(2) f(4) [OF row] c5 tms c7 c8 c9 by blast
qed

theorem C7_focus_highlight_one_shot_witness:
  "focusedPlayerId
     \<lparr>focusedPlayerId = None, effect_dep = Some None,
      elements = [''row-7'' \<mapsto> [''text-sm'', ''h-10'']],
      scrolled = [], timeouts = [], now = 100\<rparr> = None
   \<and> timeouts (request_focus ''7''
       \<lparr>focusedPlayerId = None, effect_dep = Some None,
        elements = [''row-7'' \<mapsto> [''text-sm'', ''h-10'']],
        scrolled = [], timeouts = [], now = 100\<rparr>) = [(2100, ''row-7'')]
   \<and> unhighlighted (elapse 2000 (request_focus ''7''
       \<lparr>focusedPlayerId = None, effect_dep = Some None,
        elements = [''row-7'' \<mapsto> [''text-sm'', ''h-10'']],
        scrolled = [], timeouts = [], now = 100\<rparr>)) ''row-7''
   \<and> highlighted (elapse 1999 (request_focus ''7''
       \<lparr>focusedPlayerId = None, effect_dep = Some None,
        elements = [''row-7'' \<mapsto> [''text-sm'', ''h-10'']],
        scrolled = [], timeouts = [], now = 100\<rparr>)) ''row-7''"
  using C7_focus_highlight_one_shot
    [of "\<lparr>focusedPlayerId = None, effect_dep = Some None,
        elements = [''row-7'' \<mapsto> [''text-sm'', ''h-10'']],
        scrolled = [], timeouts = [], now = 100\<rparr>" "''7''" "[''text-sm'', ''h-10'']"]
  by simp

text \<open>
  Claim C9. The focus effect always leaves the external focused player id null. On a
  settled view a focus request ends with the id null and the effect ready for the next
  request, whether the row exists or not; when the document has no element with id
  \<open>"row-" + player_id\<close>, nothing is scrolled, no class list changes and no timeout is
  registered.
\<close>

theorem C9_focus_cleared_without_row:
  "focusedPlayerId (focus_effect env) = None
   \<and> (focusedPlayerId env = None \<and> effect_dep env = Some None \<longrightarrow>
        focusedPlayerId (request_focus pid env) = None
        \<and> effect_dep (request_focus pid env) = Some None)
   \<and> (focusedPlayerId env = None \<and> effect_dep env = Some None
        \<and> elements env (''row-'' @ pid) = None \<longrightarrow>
        scrolled (request_focus pid env) = scrolled env
        \<and> elements (request_focus pid env) = elements env
        \<and> timeouts (request_focus pid env) = timeouts env)"
proof -
  have "focusedPlayerId (focus_effect env) = None"
    by (simp add: focus_effect_def Let_def split: option.splits)
  then show ?thesis
    using request_focus_fields(1,2,7) [of env pid] by blast
qed

theorem C9_focus_cleared_without_row_witness:
  "elements \<lparr>focusedPlayerId = None, effect_dep = Some None,
      elements = [''row-7'' \<mapsto> [''text-sm'', ''h-10'']],
      scrolled = [], timeouts = [], now = 100\<rparr> ''row-8'' = None
   \<and> focusedPlayerId (request_focus ''8''
       \<lparr>focusedPlayerId = None, effect_dep = Some None,
        elements = [''row-7'' \<mapsto> [''text-sm'', ''h-10'']],
        scrolled = [], timeouts = [], now = 100\<rparr>) = None
   \<and> scrolled (request_focus ''8''
       \<lparr>focusedPlayerId = None, effect_dep = Some None,
        elements = [''row-7'' \<mapsto> [''text-sm'', ''h-10'']],
        scrolled = [], timeouts = [], now = 100\<rparr>) = []
   \<and> timeouts (request_focus ''8''
       \<lparr>focusedPlayerId = None, effect_dep = Some None,
        elements = [''row-7'' \<mapsto> [''text-sm'', ''h-10'']],
        scrolled = [], timeouts = [], now = 100\<rparr>) = []"
  using C9_focus_cleared_without_row
    [of "\<lparr>focusedPlayerId = None, effect_dep = Some None,
        elements = [''row-7'' \<mapsto> [''text-sm'', ''h-10'']],
        scrolled = [], timeouts = [], now = 100\<rparr>" "''8''"]
  by simp

subsection \<open>The grouped collapsible list\<close>

lemma sorted_desc_rev_sort_key:
  "sorted_wrt (\<lambda>a b. f b \<le> f a) (rev (sort_key f xs))"
proof -
  have "sorted (map f (sort_key f xs))" by (rule sorted_sort_key)
  then have "sorted_wrt (\<lambda>a b. f a \<le> f b) (sort_key f xs)"
    by (simp only: sorted_map)
  then show ?thesis by (simp only: sorted_wrt_rev)
qed

lemma SubList_rows_Whole:
  "SubList_rows (Whole m) True = sort_key fst m"
  "SubList_rows (Whole m) False = rev (sort_key snd m)"
  by (simp_all only: SubList_rows_def SubList_sorted_def SubList_data.simps if_True if_False)

lemma SubList_rows_Keyed:
  "map_of n k = Some d \<Longrightarrow> SubList_rows (Keyed n k) True = sort_key fst d"
  "map_of n k = Some d \<Longrightarrow> SubList_rows (Keyed n k) False = rev (sort_key snd d)"
  "map_of n k = None \<Longrightarrow> SubList_rows (Keyed n k) b = []"
  by (simp_all add: SubList_rows_def SubList_sorted_def)

text \<open>
  Claim C8. For every input mapping the rows of the grouped collapsible list are the
  entries of that mapping, in ascending order of the keys when \<open>sortByKey\<close> is true, and
  otherwise in descending order of the values: the entries sorted by ascending value,
  reversed. With a \<open>dataMapKey\<close> the mapping shown is the one stored under that key, and
  the list is empty when there is none.
\<close>

theorem C8_SubList_sort_order:
  "SubList_rows (Whole m) True = sort_key fst m
   \<and> sorted (map fst (SubList_rows (Whole m) True))
   \<and> mset (SubList_rows (Whole m) True) = mset m
   \<and> SubList_rows (Whole m) False = rev (sort_key snd m)
   \<and> sorted_wrt (\<lambda>a b. snd b \<le> snd a) (SubList_rows (Whole m) False)
   \<and> mset (SubList_rows (Whole m) False) = mset m
   \<and> (\<forall>d. k \<noteq> [] \<and> map_of n k = Some d \<longrightarrow>
         SubList_rows (Keyed n k) True = sort_key fst d
         \<and> sorted (map fst (SubList_rows (Keyed n k) True))
         \<and> mset (SubList_rows (Keyed n k) True) = mset d
         \<and> SubList_rows (Keyed n k) False = rev (sort_key snd d)
         \<and> sorted_wrt (\<lambda>a b. snd b \<le> snd a) (SubList_rows (Keyed n k) False)
         \<and> mset (SubList_rows (Keyed n k) False) = mset d)
   \<and> (k \<noteq> [] \<and> map_of n k = None \<longrightarrow> SubList_rows (Keyed n k) b = [])"
proof -
  have whole: "SubList_rows (Whole m) True = sort_key fst m
   \<and> sorted (map fst (SubList_rows (Whole m) True))
   \<and> mset (SubList_rows (Whole m) True) = mset m
   \<and> SubList_rows (Whole m) False = rev (sort_key snd m)
   \<and> sorted_wrt (\<lambda>a b. snd b \<le> snd a) (SubList_rows (Whole m) False)
   \<and> mset (SubList_rows (Whole m) False) = mset m"
    unfolding SubList_rows_Whole
    using sorted_sort_key [of fst m] sorted_desc_rev_sort_key [of snd m]
    by (simp only: mset_rev mset_sort simp_thms)
  have keyed: "SubList_rows (Keyed n k) True = sort_key fst d
         \<and> sorted (map fst (SubList_rows (Keyed n k) True))
         \<and> mset (SubList_rows (Keyed n k) True) = mset d
         \<and> SubList_rows (Keyed n k) False = rev (sort_key snd d)
         \<and> sorted_wrt (\<lambda>a b. snd b \<le> snd a) (SubList_rows (Keyed n k) False)
         \<and> mset (SubList_rows (Keyed n k) False) = mset d"
    if "map_of n k = Some d" for d
    unfolding SubList_rows_Keyed(1,2) [OF that]
    using sorted_sort_key [of fst d] sorted_desc_rev_sort_key [of snd d]
    by (simp only: mset_rev mset_sort simp_thms)
  have missing: "SubList_rows (Keyed n k) b = []" if "map_of n k = None"
    using that by (rule SubList_rows_Keyed(3))
  show ?thesis
    using whole keyed missing by blast
qed

theorem C8_SubList_sort_order_witness:
  "''weapons'' \<noteq> []
   \<and> map_of [(''weapons'', [(''mp40'', 2::int), (''garand'', 2), (''luger'', 7)])] ''weapons''
       = Some [(''mp40'', 2), (''garand'', 2), (''luger'', 7)]
   \<and> SubList_rows
        (Keyed [(''weapons'', [(''mp40'', 2::int), (''garand'', 2), (''luger'', 7)])] ''weapons'')
        True
       = [(''garand'', 2), (''luger'', 7), (''mp40'', 2)]
   \<and> SubList_rows
        (Keyed [(''weapons'', [(''mp40'', 2::int), (''garand'', 2), (''luger'', 7)])] ''weapons'')
        False
       = [(''luger'', 7), (''garand'', 2), (''mp40'', 2)]
   \<and> map_of [(''weapons'', [(''mp40'', 2::int), (''garand'', 2), (''luger'', 7)])] ''deaths''
       = None
   \<and> SubList_rows
        (Keyed [(''weapons'', [(''mp40'', 2::int), (''garand'', 2), (''luger'', 7)])] ''deaths'')
        True
       = []"
proof -
  let ?n = "[(''weapons'', [(''mp40'', 2::int), (''garand'', 2), (''luger'', 7)])]"
  have a: "map_of ?n ''weapons'' = Some [(''mp40'', 2), (''garand'', 2), (''luger'', 7)]"
    and b: "map_of ?n ''deaths'' = None"
    by simp_all
  have s1: "sort_key fst [(''mp40'', 2::int), (''garand'', 2), (''luger'', 7)]
              = [(''garand'', 2), (''luger'', 7), (''mp40'', 2)]"
    by (simp add: less_eq_char_def less_char_def list_le_def)
  have s2: "rev (sort_key snd [(''mp40'', 2::int), (''garand'', 2), (''luger'', 7)])
              = [(''luger'', 7), (''garand'', 2), (''mp40'', 2)]"
    by simp
  from C8_SubList_sort_order [of "[] :: (string \<times> int) list" "''weapons''" ?n True] a
  have "SubList_rows (Keyed ?n ''weapons'') True
          = sort_key fst [(''mp40'', 2::int), (''garand'', 2), (''luger'', 7)]"
    and "SubList_rows (Keyed ?n ''weapons'') False
          = rev (sort_key snd [(''mp40'', 2::int), (''garand'', 2), (''luger'', 7)])"
    by blast+
  then have c: "SubList_rows (Keyed ?n ''weapons'') True
                  = [(''garand'', 2), (''luger'', 7), (''mp40'', 2)]"
    "SubList_rows (Keyed ?n ''weapons'') False = [(''luger'', 7), (''garand'', 2), (''mp40'', 2)]"
    by (simp_all only: s1 s2)
  from C8_SubList_sort_order [of "[] :: (string \<times> int) list" "''deaths''" ?n True] b
  have d: "SubList_rows (Keyed ?n ''deaths'') True = []"
    by blast
  from a b c d show ?thesis by blast
qed

subsection \<open>The export control\<close>

text \<open>
  Claim C1, as stated, fails: with a player filter that selects two of three rows, the
  table shows the two rows, sorted by kills, and the export control hands all three
  rows of the \<open>data\<close> prop, in their original order, to the download.
\<close>

theorem C1_export_counterexample:
  "dl_rows (download_onClick [playerColumn, killsColumn]
      [\<lparr>player_id = ''1'', player = ''alice'', kills = 1\<rparr>,
       \<lparr>player_id = ''2'', player = ''bob'', kills = 5\<rparr>,
       \<lparr>player_id = ''3'', player = ''carol'', kills = 9\<rparr>]
      ''t1''
      \<lparr>sorting = [(''kills'', True)],
       columnFilters = [(''player'', FNames [''bob'', ''carol''])]\<rparr>)
     = [\<lparr>player_id = ''1'', player = ''alice'', kills = 1\<rparr>,
        \<lparr>player_id = ''2'', player = ''bob'', kills = 5\<rparr>,
        \<lparr>player_id = ''3'', player = ''carol'', kills = 9\<rparr>]
   \<and> getRowModel [playerColumn, killsColumn]
      [\<lparr>player_id = ''1'', player = ''alice'', kills = 1\<rparr>,
       \<lparr>player_id = ''2'', player = ''bob'', kills = 5\<rparr>,
       \<lparr>player_id = ''3'', player = ''carol'', kills = 9\<rparr>]
      \<lparr>sorting = [(''kills'', True)],
       columnFilters = [(''player'', FNames [''bob'', ''carol''])]\<rparr>
     = [\<lparr>player_id = ''3'', player = ''carol'', kills = 9\<rparr>,
        \<lparr>player_id = ''2'', player = ''bob'', kills = 5\<rparr>]"
  by (simp add: download_onClick_def getRowModel_def getSortedRowModel_def
      getFilteredRowModel_def passesFilters_def getColumn_def sortByColumn_def
      playerColumn_def killsColumn_def nameSelected_def keepAll_def)

text \<open>
  Claim C1, amended. Activating the export control triggers a download of the \<open>data\<close>
  array that was passed to the table, as it is, under the name \<open>game-table-\<close> followed
  by the table id, whatever the current filters and sorting are.
\<close>

theorem C1_export_raw_data:
  "dl_rows (download_onClick cols rows tid ts) = rows
   \<and> dl_name (download_onClick cols rows tid ts) = ''game-table-'' @ tid
   \<and> download_onClick cols rows tid ts = download_onClick cols rows tid ts'"
  by (simp add: download_onClick_def)

section \<open>Properties of the polling dashboard\<close>

subsection \<open>The next-map message\<close>

lemma bind_js_Inr [simp]: "bind_js (Inr v) f = f v"
  by (simp add: bind_js_def)

lemma bind_js_Inl [simp]: "bind_js (Inl e) f = Inl e"
  by (simp add: bind_js_def)

lemma nextMapString_cases:
  assumes "top_vote st = Inr (m, nb)" "totalVotes st = Inr tot" "nextMap st = Inr nm"
  shows "nextMapString other st =
           Inr (if strict_eq m nm
                then ''Nextmap '' @ to_string other nm @ '' with '' @ to_string other nb
                     @ '' out of '' @ to_string other tot @ '' votes''
                else ''Nextmap: '' @ to_string other nm)"
  using assms by (simp add: nextMapString_def)

lemma decimal_digit: "n < 10 \<Longrightarrow> decimal n = [''0123456789'' ! n]"
  by (simp add: decimal.simps digit_def)

lemma to_string_count:
  "0 \<le> a \<Longrightarrow> a \<le> 9007199254740991 \<Longrightarrow> to_string other (JNum a) = decimal (nat a)"
  by (simp add: safe_integer_def number_string_def)

lemma nextMapString_names_counts:
  assumes "top_vote st = Inr (JStr winner, JNum a)" "totalVotes st = Inr (JNum b)"
    and "nextMap st = Inr (JStr decided)"
    and "0 \<le> a" "a \<le> 9007199254740991" "0 \<le> b" "b \<le> 9007199254740991"
  shows "nextMapString other st =
           Inr (if winner = decided
                then ''Nextmap '' @ decided @ '' with '' @ decimal (nat a)
                     @ '' out of '' @ decimal (nat b) @ '' votes''
                else ''Nextmap: '' @ decided)"
proof -
  have "to_string other (JNum a) = decimal (nat a)" "to_string other (JNum b) = decimal (nat b)"
    using assms by (simp_all only: to_string_count)
  then show ?thesis
    unfolding nextMapString_cases [OF assms(1,2,3)]
    by (simp del: to_string.simps(4))
qed

lemma example_tally:
  "nextMapString other
     (IMap [(''vote_status'',
               IMap [(''winning_maps'', IList [IList [JStr ''St. Mere Eglise'', JNum 5]]),
                     (''total_votes'', JNum 8)]),
            (''next_map'', IMap [(''map'', IMap [(''pretty_name'', JStr ''St. Mere Eglise'')])])])
     = Inr ''Nextmap St. Mere Eglise with 5 out of 8 votes''"
  by (simp add: nextMapString_def top_vote_def totalVotes_def nextMap_def first_two_def
      number_string_def safe_integer_def decimal_digit)

lemma example_plain:
  "nextMapString other
     (IMap [(''vote_status'',
               IMap [(''winning_maps'', IList [IList [JStr ''St. Mere Eglise'', JNum 5]]),
                     (''total_votes'', JNum 8)]),
            (''next_map'', IMap [(''map'', IMap [(''pretty_name'', JStr ''Carentan'')])])])
     = Inr ''Nextmap: Carentan''"
  by (simp add: nextMapString_def top_vote_def totalVotes_def nextMap_def first_two_def)

lemma votes_absent:
  assumes "map_of kv ''vote_status'' = None \<or> map_of kv ''vote_status'' = Some JNull"
  shows "top_vote (IMap kv) = Inr (JStr [], JNum 0)"
    and "totalVotes (IMap kv) = Inr JUndefined"
  using assms by (auto simp: top_vote_def totalVotes_def first_two_def)

lemma votes_absent_message:
  assumes "map_of kv ''vote_status'' = None \<or> map_of kv ''vote_status'' = Some JNull"
    and "nextMap (IMap kv) = Inr nm"
  shows "nextMapString other (IMap kv) =
           Inr (if strict_eq (JStr []) nm
                then ''Nextmap '' @ to_string other nm @ '' with 0 out of undefined votes''
                else ''Nextmap: '' @ to_string other nm)"
  using nextMapString_cases [OF votes_absent [OF assms(1)] assms(2), of other]
  by (simp add: safe_integer_def number_string_def decimal_digit)

lemma example_empty: "nextMapString other (IMap []) = Inr ''Nextmap: undefined''"
  by (simp add: nextMapString_def top_vote_def totalVotes_def nextMap_def first_two_def)

text \<open>
  Claim C5. Whenever the three lookups succeed, the message is the tally template,
  "Nextmap <next map> with <votes> out of <total> votes", if the top-voted map is the
  same as the next map, and "Nextmap: <next map>" otherwise; for map names that are
  strings and counts that are natural numbers the inserted texts are the names and
  the decimal digits. Top map "St. Mere Eglise" with 5 of 8 votes and the same next map
  gives "Nextmap St. Mere Eglise with 5 out of 8 votes"; with the next map "Carentan" it
  gives "Nextmap: Carentan". When the server state has no vote status (or a null one)
  the lookups of the votes do not throw: the top vote falls back to the empty name with
  0 votes, the total is undefined, and the message is computed from the next map alone;
  for the empty server state it is "Nextmap: undefined".
\<close>

theorem C5_next_map_message:
  "(\<forall>m nb tot nm.
      top_vote st = Inr (m, nb) \<and> totalVotes st = Inr tot \<and> nextMap st = Inr nm \<longrightarrow>
      nextMapString other st =
        Inr (if strict_eq m nm
             then ''Nextmap '' @ to_string other nm @ '' with '' @ to_string other nb
                  @ '' out of '' @ to_string other tot @ '' votes''
             else ''Nextmap: '' @ to_string other nm))
   \<and> (\<forall>winner a b decided.
        top_vote st = Inr (JStr winner, JNum a) \<and> totalVotes st = Inr (JNum b)
        \<and> nextMap st = Inr (JStr decided)
        \<and> 0 \<le> a \<and> a \<le> 9007199254740991 \<and> 0 \<le> b \<and> b \<le> 9007199254740991 \<longrightarrow>
        nextMapString other st =
          Inr (if winner = decided
               then ''Nextmap '' @ decided @ '' with '' @ decimal (nat a)
                    @ '' out of '' @ decimal (nat b) @ '' votes''
               else ''Nextmap: '' @ decided))
   \<and> nextMapString other
       (IMap [(''vote_status'',
                 IMap [(''winning_maps'', IList [IList [JStr ''St. Mere Eglise'', JNum 5]]),
                       (''total_votes'', JNum 8)]),
              (''next_map'', IMap [(''map'', IMap [(''pretty_name'', JStr ''St. Mere Eglise'')])])])
       = Inr ''Nextmap St. Mere Eglise with 5 out of 8 votes''
   \<and> nextMapString other
       (IMap [(''vote_status'',
                 IMap [(''winning_maps'', IList [IList [JStr ''St. Mere Eglise'', JNum 5]]),
                       (''total_votes'', JNum 8)]),
              (''next_map'', IMap [(''map'', IMap [(''pretty_name'', JStr ''Carentan'')])])])
       = Inr ''Nextmap: Carentan''
   \<and> (\<forall>kv. map_of kv ''vote_status'' = None \<or> map_of kv ''vote_status'' = Some JNull \<longrightarrow>
         top_vote (IMap kv) = Inr (JStr [], JNum 0)
         \<and> totalVotes (IMap kv) = Inr JUndefined
         \<and> (\<forall>nm. nextMap (IMap kv) = Inr nm \<longrightarrow>
               nextMapString other (IMap kv) =
                 Inr (if strict_eq (JStr []) nm
                      then ''Nextmap '' @ to_string other nm @ '' with 0 out of undefined votes''
                      else ''Nextmap: '' @ to_string other nm)))
   \<and> nextMapString other (IMap []) = Inr ''Nextmap: undefined''"
proof -
  have general: "\<forall>m nb tot nm.
      top_vote st = Inr (m, nb) \<and> totalVotes st = Inr tot \<and> nextMap st = Inr nm \<longrightarrow>
      nextMapString other st =
        Inr (if strict_eq m nm
             then ''Nextmap '' @ to_string other nm @ '' with '' @ to_string other nb
                  @ '' out of '' @ to_string other tot @ '' votes''
             else ''Nextmap: '' @ to_string other nm)"
    using nextMapString_cases by blast
  have named: "\<forall>winner a b decided.
        top_vote st = Inr (JStr winner, JNum a) \<and> totalVotes st = Inr (JNum b)
        \<and> nextMap st = Inr (JStr decided)
        \<and> 0 \<le> a \<and> a \<le> 9007199254740991 \<and> 0 \<le> b \<and> b \<le> 9007199254740991 \<longrightarrow>
        nextMapString other st =
          Inr (if winner = decided
               then ''Nextmap '' @ decided @ '' with '' @ decimal (nat a)
                    @ '' out of '' @ decimal (nat b) @ '' votes''
               else ''Nextmap: '' @ decided)"
    using nextMapString_names_counts by blast
  have absent: "\<forall>kv. map_of kv ''vote_status'' = None \<or> map_of kv ''vote_status'' = Some JNull \<longrightarrow>
         top_vote (IMap kv) = Inr (JStr [], JNum 0)
         \<and> totalVotes (IMap kv) = Inr JUndefined
         \<and> (\<forall>nm. nextMap (IMap kv) = Inr nm \<longrightarrow>
               nextMapString other (IMap kv) =
                 Inr (if strict_eq (JStr []) nm
                      then ''Nextmap '' @ to_string other nm @ '' with 0 out of undefined votes''
                      else ''Nextmap: '' @ to_string other nm))"
    using votes_absent votes_absent_message by blast
  show ?thesis
    using general named example_tally [of other] example_plain [of other] absent
      example_empty [of other]
    by blast
qed

theorem C5_next_map_message_witness:
  "map_of [(''next_map'', IMap [(''map'', IMap [(''pretty_name'', JStr ''Carentan'')])])]
      ''vote_status'' = None
   \<and> nextMap (IMap [(''next_map'', IMap [(''map'', IMap [(''pretty_name'', JStr ''Carentan'')])])])
       = Inr (JStr ''Carentan'')
   \<and> nextMapString (\<lambda>v. [])
       (IMap [(''next_map'', IMap [(''map'', IMap [(''pretty_name'', JStr ''Carentan'')])])])
       = Inr ''Nextmap: Carentan''"
proof -
  have a: "map_of [(''next_map'', IMap [(''map'', IMap [(''pretty_name'', JStr ''Carentan'')])])]
      ''vote_status'' = None"
    by simp
  have b: "nextMap (IMap [(''next_map'', IMap [(''map'', IMap [(''pretty_name'', JStr ''Carentan'')])])])
       = Inr (JStr ''Carentan'')"
    by (simp add: nextMap_def)
  show ?thesis
    using a b C5_next_map_message [of "IMap []" "\<lambda>v. []"]
    by simp
qed

subsection \<open>What the handlers and a re-render change\<close>

lemma map_of_map_prod:
  "map_of (map (map_prod id f) m) k = map_option f (map_of m k)"
  by (induction m) auto

lemma strict_eq_imp_eq: "strict_eq a b \<Longrightarrow> a = b"
  by (induction a b rule: strict_eq.induct) auto

lemma strict_eq_JNum: "strict_eq a (JNum n) = (a = JNum n)"
  by (cases a) auto

lemma getData_fields:
  "isLoading (getData st)"
  "pendingStats (getData st) = Suc (pendingStats st)"
  "pendingInfo (getData st) = Suc (pendingInfo st)"
  "stats (getData st) = stats st"
  "serverState (getData st) = serverState st"
  "refreshIntervalSec (getData st) = refreshIntervalSec st"
  "isPaused (getData st) = isPaused st"
  "interval (getData st) = interval st"
  "clock (getData st) = clock st"
  "refreshSets (getData st) = refreshSets st"
  "calls (getData st) = calls st @ [LoadingSet True, StatsRequested, InfoRequested]"
  "errorsHandled (getData st) = errorsHandled st"
  by (simp_all add: getData_def issue_info_def issue_stats_def setIsLoading_def)

text \<open>The render of a statistics snapshot is always followed.\<close>

lemma render_stats_cases:
  "render_stats v = Renders \<or> render_stats v = Throws TypeError"
  by (cases v) (simp_all add: render_stats_def)

lemma render_stats_collection:
  "render_stats (IList xs) = Renders" "render_stats (IMap m) = Renders"
  by (simp_all add: render_stats_def)

lemma stats_then_cases:
  "stats_then data st = Mounted (handle_http_errors st)
   \<or> (\<exists>m. stats_then data st = Unmounted (handle_http_errors (unmount (st\<lparr>stats := m\<rparr>))))
   \<or> (\<exists>m. stats_then data st = Mounted (handle_http_errors (st\<lparr>stats := m\<rparr>)))
   \<or> (\<exists>m v. stats_then data st = Mounted (setRefreshIntervalSec v (st\<lparr>stats := m\<rparr>)))"
proof (cases "js_result data")
  case (Inl e)
  then show ?thesis by (simp add: stats_then_def)
next
  case (Inr r)
  let ?m = "fromJS (if truthy r then r else IList [])"
  from render_stats_cases [of ?m] show ?thesis
  proof
    assume "render_stats ?m = Renders"
    then show ?thesis
      by (cases "imm_get ?m ''refresh_interval_sec'' (JNum 10)")
         (auto simp: stats_then_def Inr Let_def)
  next
    assume "render_stats ?m = Throws TypeError"
    then show ?thesis
      by (auto simp: stats_then_def Inr Let_def)
  qed
qed

lemma stats_settled_cases:
  "stats_settled oc st = Mounted (handle_http_errors (st\<lparr>pendingStats := pendingStats st - 1\<rparr>))
   \<or> (\<exists>m. stats_settled oc st
          = Unmounted (handle_http_errors (unmount (st\<lparr>pendingStats := pendingStats st - 1, stats := m\<rparr>))))
   \<or> (\<exists>m. stats_settled oc st
          = Mounted (handle_http_errors (st\<lparr>pendingStats := pendingStats st - 1, stats := m\<rparr>)))
   \<or> (\<exists>m v. stats_settled oc st
          = Mounted (setRefreshIntervalSec v (st\<lparr>pendingStats := pendingStats st - 1, stats := m\<rparr>)))"
proof (cases oc)
  case Rejected
  then show ?thesis by (simp add: stats_settled_def)
next
  case (Resolved data)
  then show ?thesis
    using stats_then_cases [of data "st\<lparr>pendingStats := pendingStats st - 1\<rparr>"]
    by (simp add: stats_settled_def)
qed

text \<open>What the two promise chains never touch.\<close>

lemma stats_settled_keeps:
  assumes "stats_settled oc st = Mounted s"
  shows "isLoading s = isLoading st"
    and "serverState s = serverState st"
    and "isPaused s = isPaused st"
    and "interval s = interval st"
    and "clock s = clock st"
    and "pendingInfo s = pendingInfo st"
    and "calls s = calls st"
    and "refreshSets s = refreshSets st \<Longrightarrow> refreshIntervalSec s = refreshIntervalSec st"
  using stats_settled_cases [of oc st] assms
  by (auto simp: handle_http_errors_def setRefreshIntervalSec_def)


lemma stats_resolved_interval:
  assumes "map_of d ''result'' = Some (JObj res)"
    and "map_of res ''refresh_interval_sec'' = Some (JNum n)"
  shows "stats_settled (Resolved (JObj d)) st
           = Mounted (setRefreshIntervalSec (JNum n)
               (st\<lparr>pendingStats := pendingStats st - 1, stats := fromJS (JObj res)\<rparr>))"
  using assms
  by (simp add: stats_settled_def stats_then_def map_of_map_prod render_stats_def)

lemma stats_resolved_default:
  assumes "js_result data = Inr (JObj res)"
    and "map_of res ''refresh_interval_sec'' = None"
  shows "stats_settled (Resolved data) st
           = Mounted (setRefreshIntervalSec (JNum 10)
               (st\<lparr>pendingStats := pendingStats st - 1, stats := fromJS (JObj res)\<rparr>))"
  using assms
  by (simp add: stats_settled_def stats_then_def map_of_map_prod render_stats_def)

lemma stats_resolved_no_result:
  assumes "js_result data = Inr r" and "r = JUndefined \<or> r = JNull"
  shows "stats_settled (Resolved data) st
           = Mounted (setRefreshIntervalSec (JNum 10)
               (st\<lparr>pendingStats := pendingStats st - 1, stats := IList []\<rparr>))"
  using assms by (auto simp: stats_settled_def stats_then_def render_stats_def)



text \<open>A public-info response without a result: the render throws at the first read.\<close>

lemma info_without_result:
  assumes "js_result data = Inr r" and "r = JUndefined \<or> r = JNull"
  shows "info_settled (Resolved data) st
           = Unmounted (handle_http_errors (unmount
               (st\<lparr>pendingInfo := pendingInfo st - 1, serverState := r\<rparr>)))"
  using assms
  by (auto simp: info_settled_def info_then_def render_serverState_def title_def)

lemma info_settled_cases:
  "info_settled oc st = Mounted (handle_http_errors (st\<lparr>pendingInfo := pendingInfo st - 1\<rparr>))
   \<or> (\<exists>v. info_settled oc st
          = Mounted (setIsLoading False (st\<lparr>pendingInfo := pendingInfo st - 1, serverState := v\<rparr>)))
   \<or> (\<exists>s. info_settled oc st = Unmounted s)
   \<or> info_settled oc st = Unknown"
proof (cases oc)
  case Rejected
  then show ?thesis by (simp add: info_settled_def)
next
  case (Resolved data)
  show ?thesis
  proof (cases "js_result data")
    case (Inl e)
    then show ?thesis by (simp add: Resolved info_settled_def info_then_def)
  next
    case (Inr r)
    then show ?thesis
      by (cases "render_serverState (clock st) (fromJS r)")
         (auto simp add: Resolved info_settled_def info_then_def)
  qed
qed

lemma info_settled_keeps:
  assumes "info_settled oc st = Mounted s"
  shows "stats s = stats st"
    and "refreshIntervalSec s = refreshIntervalSec st"
    and "isPaused s = isPaused st"
    and "interval s = interval st"
    and "clock s = clock st"
    and "pendingStats s = pendingStats st"
    and "refreshSets s = refreshSets st"
  using info_settled_cases [of oc st] assms
  by (auto simp: handle_http_errors_def setIsLoading_def)

text \<open>Re-rendering changes the timer only.\<close>

lemma rerender_fields:
  "stats (rerender old new) = stats new"
  "serverState (rerender old new) = serverState new"
  "isLoading (rerender old new) = isLoading new"
  "isPaused (rerender old new) = isPaused new"
  "refreshIntervalSec (rerender old new) = refreshIntervalSec new"
  "clock (rerender old new) = clock new"
  "pendingStats (rerender old new) = pendingStats new"
  "pendingInfo (rerender old new) = pendingInfo new"
  "errorsHandled (rerender old new) = errorsHandled new"
  "refreshSets (rerender old new) = refreshSets new"
  "calls (rerender old new) = calls new"
  by (simp_all add: rerender_def interval_effect_def)

lemma rerender_interval:
  "interval (rerender old new) =
     (if deps_changed old new
      then (if isPaused new then None
            else Some \<lparr>tm_sec = refreshIntervalSec new, tm_last = clock new\<rparr>)
      else interval new)"
  by (simp add: rerender_def interval_effect_def)

lemma rerender_same_deps:
  "isPaused new = isPaused old \<Longrightarrow> refreshSets new = refreshSets old
     \<Longrightarrow> rerender old new = new"
  by (simp add: rerender_def deps_changed_def)

text \<open>A step that settles a request ends in a mounted dashboard.\<close>

lemma step_stats_settled:
  assumes "step (StatsSettled oc) st = Some st'"
  obtains s where "stats_settled oc st = Mounted s" "st' = rerender st s"
  using assms
  by (cases "stats_settled oc st") (auto simp: still_mounted_def split: if_splits)

lemma step_info_settled:
  assumes "step (InfoSettled oc) st = Some st'"
  obtains s where "info_settled oc st = Mounted s" "st' = s"
proof -
  from assms obtain s where s: "info_settled oc st = Mounted s" "st' = rerender st s"
    by (cases "info_settled oc st") (auto simp: still_mounted_def split: if_splits)
  from info_settled_keeps(3,7) [OF s(1)] have "rerender st s = s"
    by (rule rerender_same_deps)
  with s that show ?thesis by simp
qed

lemma timer_current_rerender:
  assumes "timer_current old"
    and "map_option tm_sec (interval new) = map_option tm_sec (interval old)"
    and "refreshSets new = refreshSets old \<Longrightarrow> refreshIntervalSec new = refreshIntervalSec old"
  shows "timer_current (rerender old new)"
proof (cases "deps_changed old new")
  case True
  then show ?thesis
    by (simp add: timer_current_def rerender_interval rerender_fields)
next
  case False
  then have same: "isPaused new = isPaused old" "refreshIntervalSec new = refreshIntervalSec old"
    using assms(3) by (auto simp: deps_changed_def dest: strict_eq_imp_eq)
  from assms(2) assms(1) show ?thesis
    by (auto simp: timer_current_def rerender_interval rerender_fields False same
        split: option.splits)
qed

lemma timer_current_mount: "timer_current mount"
  by (simp add: timer_current_def mount_def interval_effect_def getData_fields initial_def)

lemma timer_current_step:
  assumes "timer_current st" and "step e st = Some st'"
  shows "timer_current st'"
proof (cases e)
  case (Elapse dt)
  with assms show ?thesis by (auto simp: timer_current_def split: option.splits)
next
  case TimerFires
  with assms have st': "st' = rerender st (timer_fired st)"
    by (simp split: if_splits)
  show ?thesis unfolding st'
    by (rule timer_current_rerender [OF assms(1)])
       (simp_all add: timer_fired_def getData_fields option.map_comp comp_def)
next
  case TogglePause
  with assms have st': "st' = rerender st (st\<lparr>isPaused := \<not> isPaused st\<rparr>)"
    by simp
  show ?thesis unfolding st'
    by (rule timer_current_rerender [OF assms(1)]) simp_all
next
  case (StatsSettled oc)
  with assms(2) have "step (StatsSettled oc) st = Some st'"
    by (simp only:)
  then obtain s where s: "stats_settled oc st = Mounted s" "st' = rerender st s"
    by (rule step_stats_settled)
  show ?thesis unfolding s(2)
    by (rule timer_current_rerender [OF assms(1)])
       (simp_all add: stats_settled_keeps [OF s(1)])
next
  case (InfoSettled oc)
  with assms(2) have "step (InfoSettled oc) st = Some st'"
    by (simp only:)
  then obtain s where s: "info_settled oc st = Mounted s" "st' = s"
    by (rule step_info_settled)
  from assms(1) info_settled_keeps(2,3,4) [OF s(1)] show ?thesis
    by (auto simp: s(2) timer_current_def split: option.splits)
qed

lemma timer_current_run:
  "timer_current st \<Longrightarrow> run es st = Some st' \<Longrightarrow> timer_current st'"
proof (induction es arbitrary: st)
  case Nil
  then show ?case by simp
next
  case (Cons e es)
  then show ?case
    by (auto split: option.splits dest: timer_current_step)
qed

subsection \<open>The refresh interval\<close>

lemma next_fire_JNum:
  "next_fire \<lparr>tm_sec = JNum n, tm_last = t\<rparr> = Some (t + nat (n * 1000))"
  by (simp add: next_fire_def)

text \<open>
  Claim C6. A successful statistics response that carries a refresh interval \<open>n\<close> makes
  \<open>n\<close> the refresh interval. From then on, in every state, the timer in place is one
  set with the refresh interval of that state. While polling, the timer carries \<open>n\<close>;
  if \<open>n\<close> differs from the interval before, the timer is set anew at the time of the
  response, so the next tick comes \<open>n\<close> seconds after the response and not earlier
  (30 seconds for a response carrying 30 after an initial 10). While paused, resuming
  sets a timer with \<open>n\<close>.
\<close>

theorem C6_refresh_interval_adopted:
  assumes pending: "0 < pendingStats st"
    and res: "map_of d ''result'' = Some (JObj res)"
    and sec: "map_of res ''refresh_interval_sec'' = Some (JNum n)"
    and cur: "timer_current st"
  shows "\<exists>st'. step (StatsSettled (Resolved (JObj d))) st = Some st'
      \<and> refreshIntervalSec st' = JNum n
      \<and> (\<forall>es s. run es st' = Some s \<longrightarrow> timer_current s)
      \<and> (\<not> isPaused st \<longrightarrow> (\<exists>tm. interval st' = Some tm \<and> tm_sec tm = JNum n))
      \<and> (\<not> isPaused st \<and> refreshIntervalSec st \<noteq> JNum n \<longrightarrow>
            interval st' = Some \<lparr>tm_sec = JNum n, tm_last = clock st\<rparr>
            \<and> next_fire \<lparr>tm_sec = JNum n, tm_last = clock st\<rparr> = Some (clock st + nat (n * 1000))
            \<and> (\<forall>dt. (run [Elapse dt, TimerFires] st' \<noteq> None) = (nat (n * 1000) \<le> dt)))
      \<and> (isPaused st \<longrightarrow>
            map_option interval (step TogglePause st')
              = Some (Some \<lparr>tm_sec = JNum n, tm_last = clock st\<rparr>))"
proof -
  let ?new = "setRefreshIntervalSec (JNum n)
               (st\<lparr>pendingStats := pendingStats st - 1, stats := fromJS (JObj res)\<rparr>)"
  let ?st' = "rerender st ?new"
  have settled: "stats_settled (Resolved (JObj d)) st = Mounted ?new"
    by (rule stats_resolved_interval [OF res sec])
  have step: "step (StatsSettled (Resolved (JObj d))) st = Some ?st'"
    using pending by (simp add: settled still_mounted_def)
  have sec': "refreshIntervalSec ?st' = JNum n"
    by (simp add: rerender_fields setRefreshIntervalSec_def)
  have cur': "timer_current ?st'"
    using timer_current_step [OF cur step] .
  have later: "\<forall>es s. run es ?st' = Some s \<longrightarrow> timer_current s"
    using timer_current_run [OF cur'] by blast
  have paused': "isPaused ?st' = isPaused st" and clock': "clock ?st' = clock st"
    by (simp_all add: rerender_fields setRefreshIntervalSec_def)
  have running: "\<exists>tm. interval ?st' = Some tm \<and> tm_sec tm = JNum n" if "\<not> isPaused st"
    using cur' that sec' paused'
    by (auto simp: timer_current_def split: option.splits)
  have changed: "interval ?st' = Some \<lparr>tm_sec = JNum n, tm_last = clock st\<rparr>"
    if "\<not> isPaused st" "refreshIntervalSec st \<noteq> JNum n"
  proof -
    have "deps_changed st ?new"
      using that(2) by (simp add: deps_changed_def setRefreshIntervalSec_def strict_eq_JNum)
    then show ?thesis
      using that(1) by (simp add: rerender_interval setRefreshIntervalSec_def)
  qed
  have fires: "(run [Elapse dt, TimerFires] ?st' \<noteq> None) = (nat (n * 1000) \<le> dt)"
    if "\<not> isPaused st" "refreshIntervalSec st \<noteq> JNum n" for dt
    using changed [OF that] clock'
    by (simp add: can_fire_def next_fire_def)
  have resume: "map_option interval (step TogglePause ?st')
              = Some (Some \<lparr>tm_sec = JNum n, tm_last = clock st\<rparr>)" if "isPaused st"
    using that sec' paused' clock'
    by (simp add: rerender_interval deps_changed_def)
  show ?thesis
    using step sec' later running changed fires resume next_fire_JNum [of n "clock st"]
    by (intro exI [of _ ?st']) blast
qed

theorem C6_refresh_interval_adopted_witness:
  "0 < pendingStats (mount\<lparr>clock := 500\<rparr>)
   \<and> timer_current (mount\<lparr>clock := 500\<rparr>)
   \<and> \<not> isPaused (mount\<lparr>clock := 500\<rparr>)
   \<and> refreshIntervalSec (mount\<lparr>clock := 500\<rparr>) = JNum 10
   \<and> (\<exists>st'. step (StatsSettled (Resolved (JObj [(''result'',
                  JObj [(''stats'', JArr []), (''refresh_interval_sec'', JNum 30)])])))
               (mount\<lparr>clock := 500\<rparr>) = Some st'
          \<and> refreshIntervalSec st' = JNum 30
          \<and> interval st' = Some \<lparr>tm_sec = JNum 30, tm_last = 500\<rparr>
          \<and> run [Elapse 29999, TimerFires] st' = None
          \<and> run [Elapse 30000, TimerFires] st' \<noteq> None)"
proof -
  let ?st = "mount\<lparr>clock := 500\<rparr>"
  have h: "0 < pendingStats ?st" "timer_current ?st" "\<not> isPaused ?st"
    "refreshIntervalSec ?st = JNum 10" "clock ?st = 500"
    by (simp_all add: mount_def interval_effect_def getData_fields initial_def
        timer_current_def)
  have r: "map_of [(''result'', JObj [(''stats'', JArr []), (''refresh_interval_sec'', JNum 30)])]
             ''result'' = Some (JObj [(''stats'', JArr []), (''refresh_interval_sec'', JNum 30)])"
    by simp
  have s: "map_of [(''stats'', JArr []), (''refresh_interval_sec'', JNum 30)]
             ''refresh_interval_sec'' = Some (JNum 30)"
    by simp
  from C6_refresh_interval_adopted [OF h(1) r s h(2)]
  obtain st' where st':
    "step (StatsSettled (Resolved (JObj [(''result'',
        JObj [(''stats'', JArr []), (''refresh_interval_sec'', JNum 30)])]))) ?st = Some st'"
    "refreshIntervalSec st' = JNum 30"
    "\<not> isPaused ?st \<and> refreshIntervalSec ?st \<noteq> JNum 30 \<longrightarrow>
       interval st' = Some \<lparr>tm_sec = JNum 30, tm_last = clock ?st\<rparr>
       \<and> next_fire \<lparr>tm_sec = JNum 30, tm_last = clock ?st\<rparr> = Some (clock ?st + nat (30 * 1000))
       \<and> (\<forall>dt. (run [Elapse dt, TimerFires] st' \<noteq> None) = (nat (30 * 1000) \<le> dt))"
    by blast
  from st'(3) h(3,4,5)
  have i: "interval st' = Some \<lparr>tm_sec = JNum 30, tm_last = 500\<rparr>"
    and f: "\<forall>dt. (run [Elapse dt, TimerFires] st' \<noteq> None) = (nat (30 * 1000) \<le> dt)"
    by simp_all
  from f have "(run [Elapse 29999, TimerFires] st' \<noteq> None) = (nat (30 * 1000) \<le> 29999)"
    and "(run [Elapse 30000, TimerFires] st' \<noteq> None) = (nat (30 * 1000) \<le> 30000)"
    by blast+
  then have "run [Elapse 29999, TimerFires] st' = None"
    and "run [Elapse 30000, TimerFires] st' \<noteq> None"
    by (simp_all del: run.simps)
  with h st'(1,2) i show ?thesis by blast
qed

text \<open>
  Claim C10. A successful statistics response whose result has no field
  \<open>refresh_interval_sec\<close>, or which has no result (undefined or null), sets the refresh
  interval to 10, whatever it was before. Without a result the stats snapshot becomes the
  empty list.
\<close>

theorem C10_refresh_interval_default:
  assumes "0 < pendingStats st"
  shows "(\<forall>r. js_result data = Inr r \<and> (r = JUndefined \<or> r = JNull) \<longrightarrow>
            (\<exists>st'. step (StatsSettled (Resolved data)) st = Some st'
                  \<and> refreshIntervalSec st' = JNum 10 \<and> stats st' = IList []))
       \<and> (\<forall>res. js_result data = Inr (JObj res)
              \<and> map_of res ''refresh_interval_sec'' = None \<longrightarrow>
            (\<exists>st'. step (StatsSettled (Resolved data)) st = Some st'
                  \<and> refreshIntervalSec st' = JNum 10 \<and> stats st' = fromJS (JObj res)))"
proof -
  have a: "\<exists>st'. step (StatsSettled (Resolved data)) st = Some st'
                  \<and> refreshIntervalSec st' = JNum 10 \<and> stats st' = IList []"
    if "js_result data = Inr r" "r = JUndefined \<or> r = JNull" for r
    using assms
    by (simp add: stats_resolved_no_result [OF that] still_mounted_def rerender_fields
        setRefreshIntervalSec_def)
  have b: "\<exists>st'. step (StatsSettled (Resolved data)) st = Some st'
                  \<and> refreshIntervalSec st' = JNum 10 \<and> stats st' = fromJS (JObj res)"
    if "js_result data = Inr (JObj res)" "map_of res ''refresh_interval_sec'' = None" for res
    using assms
    by (simp add: stats_resolved_default [OF that] still_mounted_def rerender_fields
        setRefreshIntervalSec_def)
  show ?thesis using a b by blast
qed

theorem C10_refresh_interval_default_witness:
  "0 < pendingStats (mount\<lparr>refreshIntervalSec := JNum 30\<rparr>)
   \<and> js_result (JObj []) = Inr JUndefined
   \<and> map_option refreshIntervalSec
        (step (StatsSettled (Resolved (JObj []))) (mount\<lparr>refreshIntervalSec := JNum 30\<rparr>))
       = Some (JNum 10)
   \<and> map_option stats
        (step (StatsSettled (Resolved (JObj []))) (mount\<lparr>refreshIntervalSec := JNum 30\<rparr>))
       = Some (IList [])
   \<and> js_result (JObj [(''result'', JObj [(''stats'', JArr [])])]) = Inr (JObj [(''stats'', JArr [])])
   \<and> map_of [(''stats'', JArr [])] ''refresh_interval_sec'' = None
   \<and> map_option refreshIntervalSec
        (step (StatsSettled (Resolved (JObj [(''result'', JObj [(''stats'', JArr [])])])))
           (mount\<lparr>refreshIntervalSec := JNum 30\<rparr>))
       = Some (JNum 10)"
proof -
  let ?st = "mount\<lparr>refreshIntervalSec := JNum 30\<rparr>"
  have p: "0 < pendingStats ?st"
    by (simp add: mount_def interval_effect_def getData_fields)
  have j1: "js_result (JObj []) = Inr JUndefined"
    and j2: "js_result (JObj [(''result'', JObj [(''stats'', JArr [])])])
               = Inr (JObj [(''stats'', JArr [])])"
    and m: "map_of [(''stats'', JArr [])] ''refresh_interval_sec'' = None"
    by simp_all
  from C10_refresh_interval_default [OF p, of "JObj []"] j1
  have a: "map_option refreshIntervalSec (step (StatsSettled (Resolved (JObj []))) ?st)
             = Some (JNum 10)"
    "map_option stats (step (StatsSettled (Resolved (JObj []))) ?st) = Some (IList [])"
    by (auto simp del: step.simps)
  from C10_refresh_interval_default [OF p, of "JObj [(''result'', JObj [(''stats'', JArr [])])]"]
    j2 m
  have b: "map_option refreshIntervalSec
        (step (StatsSettled (Resolved (JObj [(''result'', JObj [(''stats'', JArr [])])]))) ?st)
       = Some (JNum 10)"
    by (auto simp del: step.simps js_result.simps fromJS.simps)
  from p j1 j2 m a b show ?thesis by blast
qed

subsection \<open>The loading flag\<close>







subsection \<open>A tick with a failed request\<close>












end
